theory Spec2Isabelle
  imports Complex_Main
begin

section \<open>Values shared by the scripts\<close>

text \<open>
  A numpy \<open>float64\<close> scalar. Finite values are idealised as real numbers: rounding is
  not modelled. The three special values are kept, because numpy's division by zero
  does not raise: it yields an infinity, or \<open>nan\<close> for \<open>0 / 0\<close>. The range of \<open>float64\<close>
  (a result too small becomes 0, one too large an infinity) is modelled in
  \<open>calculate_signed_angle_between_vectors\<close>, whose result depends on it; the other
  functions are modelled for results that stay in range.
\<close>

datatype npfloat = Fin real | PInf | NInf | NaN

text \<open>Exceptions of Python that the modelled code can raise.\<close>

datatype py_error = ValueError | IndexError | NameError

text \<open>
  \<open>a / b\<close> for a numpy float \<open>a\<close> and a finite divisor \<open>b\<close>. For \<open>b = 0\<close> a warning
  is printed and nothing is raised: the result is an infinity, or \<open>nan\<close> for \<open>0 / 0\<close>.
\<close>

fun np_div :: "npfloat \<Rightarrow> real \<Rightarrow> npfloat" where
  "np_div (Fin a) b =
     (if b = 0 then (if a = 0 then NaN else if 0 < a then PInf else NInf)
      else Fin (a / b))"
| "np_div PInf b = (if b < 0 then NInf else PInf)"
| "np_div NInf b = (if b < 0 then PInf else NInf)"
| "np_div NaN b = NaN"

text \<open>\<open>np.clip(v, lo, hi)\<close> on a scalar: \<open>nan\<close> stays \<open>nan\<close>.\<close>

fun np_clip :: "npfloat \<Rightarrow> real \<Rightarrow> real \<Rightarrow> npfloat" where
  "np_clip (Fin v) lo hi = Fin (min (max v lo) hi)"
| "np_clip PInf lo hi = Fin hi"
| "np_clip NInf lo hi = Fin lo"
| "np_clip NaN lo hi = NaN"

text \<open>\<open>np.arccos\<close>: \<open>nan\<close> outside \<open>[-1, 1]\<close>.\<close>

fun np_arccos :: "npfloat \<Rightarrow> npfloat" where
  "np_arccos (Fin v) = (if - 1 \<le> v \<and> v \<le> 1 then Fin (arccos v) else NaN)"
| "np_arccos PInf = NaN"
| "np_arccos NInf = NaN"
| "np_arccos NaN = NaN"

fun np_neg :: "npfloat \<Rightarrow> npfloat" where
  "np_neg (Fin v) = Fin (- v)"
| "np_neg PInf = NInf"
| "np_neg NInf = PInf"
| "np_neg NaN = NaN"

text \<open>\<open>np.degrees\<close> and \<open>np.radians\<close>.\<close>

fun np_degrees :: "npfloat \<Rightarrow> npfloat" where
  "np_degrees (Fin v) = Fin (v * 180 / pi)"
| "np_degrees PInf = PInf"
| "np_degrees NInf = NInf"
| "np_degrees NaN = NaN"

definition radians :: "real \<Rightarrow> real" where
  "radians d = d * pi / 180"

text \<open>
  Arithmetic of numpy floats: \<open>nan\<close> propagates, \<open>inf - inf\<close> and \<open>0 * inf\<close> are \<open>nan\<close>.
\<close>

fun np_add :: "npfloat \<Rightarrow> npfloat \<Rightarrow> npfloat" where
  "np_add (Fin a) (Fin b) = Fin (a + b)"
| "np_add NaN v = NaN"
| "np_add u NaN = NaN"
| "np_add PInf NInf = NaN"
| "np_add NInf PInf = NaN"
| "np_add PInf v = PInf"
| "np_add u PInf = PInf"
| "np_add NInf v = NInf"
| "np_add u NInf = NInf"

fun np_mul :: "npfloat \<Rightarrow> npfloat \<Rightarrow> npfloat" where
  "np_mul (Fin a) (Fin b) = Fin (a * b)"
| "np_mul NaN v = NaN"
| "np_mul u NaN = NaN"
| "np_mul PInf (Fin b) = (if b = 0 then NaN else if 0 < b then PInf else NInf)"
| "np_mul NInf (Fin b) = (if b = 0 then NaN else if 0 < b then NInf else PInf)"
| "np_mul (Fin a) PInf = (if a = 0 then NaN else if 0 < a then PInf else NInf)"
| "np_mul (Fin a) NInf = (if a = 0 then NaN else if 0 < a then NInf else PInf)"
| "np_mul PInf PInf = PInf"
| "np_mul PInf NInf = NInf"
| "np_mul NInf PInf = NInf"
| "np_mul NInf NInf = PInf"

text \<open>
  The range of \<open>float64\<close> under rounding to nearest: an exact result of magnitude at
  least \<open>2^1024 - 2^970\<close> (half a step above the largest finite value) becomes an
  infinity, one of magnitude at most \<open>2^-1075\<close> (half the smallest positive value)
  becomes 0. \<open>np_result u\<close> is the \<open>float64\<close> that an operation returns when its exact
  result is \<open>u\<close>.
\<close>

definition float64_overflow :: real where
  "float64_overflow = 2 ^ 1024 - 2 ^ 970"

definition float64_underflow :: real where
  "float64_underflow = 1 / 2 ^ 1075"

definition fl64 :: "real \<Rightarrow> npfloat" where
  "fl64 v =
     (if float64_overflow \<le> v then PInf
      else if v \<le> - float64_overflow then NInf
      else if \<bar>v\<bar> \<le> float64_underflow then Fin 0
      else Fin v)"

fun np_result :: "npfloat \<Rightarrow> npfloat" where
  "np_result (Fin v) = fl64 v"
| "np_result PInf = PInf"
| "np_result NInf = NInf"
| "np_result NaN = NaN"

text \<open>\<open>np.sqrt\<close>, \<open>u / v\<close> and \<open>u < 0\<close> on numpy floats.\<close>

fun np_sqrt :: "npfloat \<Rightarrow> npfloat" where
  "np_sqrt (Fin v) = (if v < 0 then NaN else Fin (sqrt v))"
| "np_sqrt PInf = PInf"
| "np_sqrt NInf = NaN"
| "np_sqrt NaN = NaN"

fun np_truediv :: "npfloat \<Rightarrow> npfloat \<Rightarrow> npfloat" where
  "np_truediv u (Fin b) = np_div u b"
| "np_truediv u NaN = NaN"
| "np_truediv (Fin a) PInf = Fin 0"
| "np_truediv (Fin a) NInf = Fin 0"
| "np_truediv u PInf = NaN"
| "np_truediv u NInf = NaN"

fun np_negative :: "npfloat \<Rightarrow> bool" where
  "np_negative (Fin v) = (v < 0)"
| "np_negative NInf = True"
| "np_negative PInf = False"
| "np_negative NaN = False"

text \<open>
  \<open>np.dot\<close> and \<open>np.cross\<close> of two 2-component vectors, and \<open>np.linalg.norm\<close> of one
  (numpy computes it as \<open>sqrt(x.dot(x))\<close>): every product and every sum is a \<open>float64\<close>.
\<close>

definition np_dot :: "real \<times> real \<Rightarrow> real \<times> real \<Rightarrow> npfloat" where
  "np_dot vec1 vec2 =
     np_result (np_add (fl64 (fst vec1 * fst vec2)) (fl64 (snd vec1 * snd vec2)))"

definition np_cross :: "real \<times> real \<Rightarrow> real \<times> real \<Rightarrow> npfloat" where
  "np_cross vec1 vec2 =
     np_result (np_add (fl64 (fst vec1 * snd vec2)) (np_neg (fl64 (snd vec1 * fst vec2))))"

definition np_linalg_norm :: "real \<times> real \<Rightarrow> npfloat" where
  "np_linalg_norm vec = np_sqrt (np_dot vec vec)"

section \<open>The calibration script: angles and coordinate transforms\<close>

text \<open>The functions of \<^verbatim>\<open>automation/calibration/beam_shift_main.py\<close>.\<close>

text \<open>
  \<open>Point\<close> of the microscope client: a pair of coordinates. (The fields are named
  \<open>pt_x\<close> and \<open>pt_y\<close>, since \<open>x\<close> and \<open>y\<close> would become constants.)
\<close>

record Point =
  pt_x :: real
  pt_y :: real

text \<open>
  \<open>calculate_signed_angle_between_vectors(vec1, vec2)\<close>, on 2-component vectors
  \<open>(x, y)\<close> of finite entries. No statement of the body raises: the division is numpy's,
  so the result is always \<open>Inr\<close>. A product that underflows to 0 or overflows to an
  infinity does so here as in the code.
\<close>

definition calculate_signed_angle_between_vectors ::
    "real \<times> real \<Rightarrow> real \<times> real \<Rightarrow> py_error + npfloat" where
  "calculate_signed_angle_between_vectors vec1 vec2 =
     (let dot_product = np_dot vec1 vec2;
          magnitude_vec1 = np_linalg_norm vec1;
          magnitude_vec2 = np_linalg_norm vec2;
          cos_theta =
            np_result (np_truediv dot_product
                         (np_result (np_mul magnitude_vec1 magnitude_vec2)));
          cos_theta = np_clip cos_theta (- 1) 1;
          angle_radians = np_arccos cos_theta;
          cross_product = np_cross vec1 vec2;
          angle_radians =
            (if np_negative cross_product then np_neg angle_radians else angle_radians);
          angle_degrees = np_result (np_degrees angle_radians)
      in Inr angle_degrees)"

text \<open>
  \<open>image_to_beam_shift(px_col_vector_xy, pixel_size, angle_deg)\<close>: the argument is a
  2-by-1 column vector, modelled by its two entries; the result is a \<open>Point\<close>.
\<close>

definition image_to_beam_shift :: "real \<times> real \<Rightarrow> real \<Rightarrow> real \<Rightarrow> Point" where
  "image_to_beam_shift px_col_vector_xy pixel_size angle_deg =
     (let image_to_beam_shift_angle = radians angle_deg;
          m00 = cos image_to_beam_shift_angle; m01 = - sin image_to_beam_shift_angle;
          m10 = sin image_to_beam_shift_angle; m11 = cos image_to_beam_shift_angle;
          vector_meters = (fst px_col_vector_xy * pixel_size, snd px_col_vector_xy * pixel_size);
          transformed_vector =
            (m00 * fst vector_meters + m01 * snd vector_meters,
             m10 * fst vector_meters + m11 * snd vector_meters);
          reflection_factor = - 1
      in \<lparr>pt_x = fst transformed_vector, pt_y = snd transformed_vector * reflection_factor\<rparr>)"

text \<open>
  \<open>beam_to_image_shift(beam_shift_col_vector_xy, pixel_size, angle_deg)\<close>: the result is
  a 1-dimensional array of two entries; the division by \<open>pixel_size\<close> is numpy's. The
  inverse \<open>(i00, i01, i10, i11)\<close> is the transpose of the rotation matrix.
\<close>

definition beam_to_image_shift :: "Point \<Rightarrow> real \<Rightarrow> real \<Rightarrow> npfloat \<times> npfloat" where
  "beam_to_image_shift beam_shift_col_vector_xy pixel_size angle_deg =
     (let image_to_beam_shift_angle = radians angle_deg;
          m00 = cos image_to_beam_shift_angle; m01 = - sin image_to_beam_shift_angle;
          m10 = sin image_to_beam_shift_angle; m11 = cos image_to_beam_shift_angle;
          (i00, i01, i10, i11) = (m00, m10, m01, m11);
          beam_shift_vector_np = (pt_x beam_shift_col_vector_xy, pt_y beam_shift_col_vector_xy);
          beam_shift_vector_refl = (fst beam_shift_vector_np, snd beam_shift_vector_np * - 1);
          vector_meters =
            (i00 * fst beam_shift_vector_refl + i01 * snd beam_shift_vector_refl,
             i10 * fst beam_shift_vector_refl + i11 * snd beam_shift_vector_refl)
      in (np_div (Fin (fst vector_meters)) pixel_size,
          np_div (Fin (snd vector_meters)) pixel_size))"

section \<open>numpy arrays and the image functions of both scripts\<close>

text \<open>\<open>u <= v\<close> on numpy floats: false whenever one side is \<open>nan\<close>.\<close>

fun np_le :: "npfloat \<Rightarrow> npfloat \<Rightarrow> bool" where
  "np_le NaN v = False"
| "np_le u NaN = False"
| "np_le NInf v = True"
| "np_le u PInf = True"
| "np_le (Fin a) (Fin b) = (a \<le> b)"
| "np_le PInf v = False"
| "np_le u NInf = False"

text \<open>\<open>np.sum\<close> of a sequence of floats (0 for the empty one).\<close>

definition np_sum :: "npfloat list \<Rightarrow> npfloat" where
  "np_sum vs = foldr np_add vs (Fin 0)"

text \<open>
  A 2-dimensional array of floats is the list of its rows, all of one length.
  \<open>shape[0]\<close> is the number of rows, \<open>shape[1]\<close> the length of a row (an array without
  rows is taken to have no columns). An array of integers, such as the mask that
  \<open>preprocess_image\<close> returns, is an array of finite values. The parameter \<open>image\<close> of
  the source is written \<open>img\<close>, since \<open>image\<close> is a constant of HOL.
\<close>

type_synonym ndarray = "npfloat list list"

definition nrows :: "'a list list \<Rightarrow> nat" where
  "nrows img = length img"

definition ncols :: "'a list list \<Rightarrow> nat" where
  "ncols img = (case img of [] \<Rightarrow> 0 | row # _ \<Rightarrow> length row)"

text \<open>An array of finite values, written with real entries.\<close>

definition finite_image :: "real list list \<Rightarrow> ndarray" where
  "finite_image rows = map (map Fin) rows"

text \<open>
  \<open>bin_image(image, bin_factor)\<close>, the same function in both scripts.
  \<open>image.reshape(256, bin_factor, 256, bin_factor)\<close> reads the array in row-major order
  and raises \<open>ValueError\<close> unless it has exactly \<open>256 * bin_factor * 256 * bin_factor\<close>
  entries (or when \<open>bin_factor\<close> is negative); entry \<open>[a, b, c, d]\<close> of the reshaped
  array is entry \<open>((a * bin_factor + b) * 256 + c) * bin_factor + d\<close> of the flat one.
  \<open>np.sum(..., axis=(1, 3))\<close> sums over \<open>b\<close> and \<open>d\<close>.
\<close>

definition bin_image :: "ndarray \<Rightarrow> int \<Rightarrow> py_error + ndarray" where
  "bin_image img bin_factor =
     (let flat = concat img; f = nat bin_factor in
      if bin_factor < 0 \<or> length flat \<noteq> 256 * f * 256 * f then Inl ValueError
      else
        let binned_img =
              map (\<lambda>a. map (\<lambda>c.
                     np_sum (map (\<lambda>b. np_sum (map (\<lambda>d.
                       flat ! (((a * f + b) * 256 + c) * f + d)) [0..<f])) [0..<f]))
                   [0..<256]) [0..<256];
            binned_img =
              map (map (\<lambda>v. np_div v (real_of_int (bin_factor * bin_factor)))) binned_img
        in Inr binned_img)"

text \<open>
  \<open>int(r)\<close> of Python truncates towards zero; \<open>a[:, k:]\<close> counts a negative \<open>k\<close> from the
  end and clamps it to the row.
\<close>

definition py_int :: "real \<Rightarrow> int" where
  "py_int r = (if 0 \<le> r then \<lfloor>r\<rfloor> else \<lceil>r\<rceil>)"

definition slice_start :: "nat \<Rightarrow> int \<Rightarrow> nat" where
  "slice_start n k = (if k < 0 then nat (max 0 (int n + k)) else min n (nat k))"

text \<open>\<open>generate_template(image, overlap_factor)\<close>, the same function in both scripts.\<close>

definition generate_template :: "ndarray \<Rightarrow> real \<Rightarrow> ndarray" where
  "generate_template img overlap_factor =
     map (drop (slice_start (ncols img) (py_int (real (ncols img) * (1 - overlap_factor))))) img"

text \<open>
  \<open>np.argmax\<close> of a flat float array: the index of the first maximum, a \<open>nan\<close> counting
  as maximal; \<open>ValueError\<close> on an empty array. numpy's loop keeps the running maximum
  \<open>mp\<close> and its index, replaces them when \<open>not (x <= mp)\<close>, and stops at a \<open>nan\<close>.
\<close>

fun argmax_from :: "nat \<Rightarrow> nat \<Rightarrow> npfloat \<Rightarrow> npfloat list \<Rightarrow> nat" where
  "argmax_from i max_ind mp [] = max_ind"
| "argmax_from i max_ind mp (v # vs) =
     (if mp = NaN then max_ind
      else if \<not> np_le v mp then argmax_from (Suc i) i v vs
      else argmax_from (Suc i) max_ind mp vs)"

definition np_argmax :: "npfloat list \<Rightarrow> py_error + nat" where
  "np_argmax vs = (case vs of [] \<Rightarrow> Inl ValueError | v # rest \<Rightarrow> Inr (argmax_from 1 0 v rest))"

text \<open>\<open>np.unravel_index(k, shape)\<close> for a 2-dimensional shape and \<open>k\<close> inside it.\<close>

definition unravel_index :: "nat \<Rightarrow> nat \<times> nat \<Rightarrow> int \<times> int" where
  "unravel_index k shape = (int (k div snd shape), int (k mod snd shape))"

text \<open>
  \<open>scipy.signal.correlate2d(in1, in2, mode)\<close> with the default \<open>boundary='fill'\<close>,
  \<open>fillvalue=0\<close>. Entry \<open>[k, l]\<close> of the result is the sum over the entries \<open>[i, j]\<close> of
  \<open>in2\<close> of \<open>in1[k + i - oy, l + j - ox] * in2[i, j]\<close>, where \<open>in1\<close> reads as 0 outside
  its bounds; in mode \<open>'full'\<close> the offsets are one less than the shape of \<open>in2\<close> and the
  result has the shape \<open>shape(in1) + shape(in2) - 1\<close>; in mode \<open>'valid'\<close> they are 0 and the
  shape is \<open>shape(in1) - shape(in2) + 1\<close>. In mode \<open>'valid'\<close> one array must be at least as
  large as the other in both dimensions (\<open>ValueError\<close> otherwise); when it is \<open>in2\<close>,
  scipy swaps the arguments and reverses the result along both axes.
\<close>

datatype corr_mode = Full | Valid

definition fill_at :: "ndarray \<Rightarrow> int \<Rightarrow> int \<Rightarrow> npfloat" where
  "fill_at img r c =
     (if 0 \<le> r \<and> r < int (nrows img) \<and> 0 \<le> c \<and> c < int (ncols img)
      then img ! nat r ! nat c else Fin 0)"

definition corr_entry :: "ndarray \<Rightarrow> ndarray \<Rightarrow> int \<Rightarrow> int \<Rightarrow> npfloat" where
  "corr_entry in1 in2 r c =
     np_sum (map (\<lambda>i. np_sum (map (\<lambda>j.
        np_mul (fill_at in1 (r + int i) (c + int j)) (in2 ! i ! j)) [0..<ncols in2]))
      [0..<nrows in2])"

definition corr_valid :: "ndarray \<Rightarrow> ndarray \<Rightarrow> ndarray" where
  "corr_valid in1 in2 =
     map (\<lambda>k. map (\<lambda>l. corr_entry in1 in2 (int k) (int l))
            [0..<ncols in1 - ncols in2 + 1])
       [0..<nrows in1 - nrows in2 + 1]"

definition correlate2d :: "ndarray \<Rightarrow> ndarray \<Rightarrow> corr_mode \<Rightarrow> py_error + ndarray" where
  "correlate2d in1 in2 mode =
     (case mode of
        Full \<Rightarrow>
          Inr (map (\<lambda>k. map (\<lambda>l.
                 corr_entry in1 in2 (int k - (int (nrows in2) - 1)) (int l - (int (ncols in2) - 1)))
                 [0..<ncols in1 + ncols in2 - 1])
               [0..<nrows in1 + nrows in2 - 1])
      | Valid \<Rightarrow>
          (let ok1 = (nrows in2 \<le> nrows in1 \<and> ncols in2 \<le> ncols in1);
               ok2 = (nrows in1 \<le> nrows in2 \<and> ncols in1 \<le> ncols in2)
           in if \<not> (ok1 \<or> ok2) then Inl ValueError
              else if ok1 then Inr (corr_valid in1 in2)
              else Inr (rev (map rev (corr_valid in2 in1)))))"


text \<open>
  \<open>cross_correlate(image, template)\<close> of the tiling script: the (row, column) index of
  the peak of the valid-mode correlation.
\<close>

definition cross_correlate :: "ndarray \<Rightarrow> ndarray \<Rightarrow> py_error + int \<times> int" where
  "cross_correlate img template =
     (case correlate2d img template Valid of
        Inl e \<Rightarrow> Inl e
      | Inr corr_map \<Rightarrow>
          (case np_argmax (concat corr_map) of
             Inl e \<Rightarrow> Inl e
           | Inr k \<Rightarrow> Inr (unravel_index k (nrows corr_map, ncols corr_map))))"

section \<open>The tiling script: the tile drift-correction loop\<close>

text \<open>The loop of \<^verbatim>\<open>automation/tiling/main.py\<close>, lines 111 to 239.\<close>

text \<open>The configuration constants of the script.\<close>

definition NO_COLS_TO_TILE :: nat where "NO_COLS_TO_TILE = 2"
definition NO_ROWS_TO_TILE :: nat where "NO_ROWS_TO_TILE = 1"
definition OVERLAP_FACTOR :: real where "OVERLAP_FACTOR = 3 / 10"
definition IMAGE_SIZE :: real where "IMAGE_SIZE = 1024"
definition DESIRED_SHIFT_PIXELS :: real where "DESIRED_SHIFT_PIXELS = IMAGE_SIZE * (1 - OVERLAP_FACTOR)"
definition SHIFT_TOLERANCE_PIXELS :: int where "SHIFT_TOLERANCE_PIXELS = 5"
definition BIN_FACTOR :: int where "BIN_FACTOR = 4"

text \<open>
  The microscope client is not part of the repository. Of a \<open>StagePosition\<close> only \<open>x\<close> and
  \<open>y\<close> are used; an \<open>AdornedImage\<close> carries the detector counts and the stage position of
  its metadata. The microscope is given by what the script reads from it: the field of
  view, the stage position at the start, and the image that the \<open>n\<close>-th call of
  \<open>acquire_stem_image\<close> returns. Every sequence of images is possible, so a property
  proved for all \<open>stem_images\<close> holds however the microscope reacts to the commands.
  The calls of the client are taken to return: an exception of the microscope itself is
  not modelled.
\<close>

record StagePosition =
  sp_x :: real
  sp_y :: real

record AdornedImage =
  img_data :: "nat list list"
  stage_position :: StagePosition

record Microscope =
  scan_field_of_view :: real
  initial_stage_position :: StagePosition
  stem_images :: "nat \<Rightarrow> AdornedImage"

text \<open>What the script prints, and the commands it sends, in the order of execution.\<close>

datatype printed =
    DesiredAbsStagePos StagePosition
  | DesiredAbsStagePos1 StagePosition
  | DesiredAbsStagePos2 StagePosition
  | ImageTag nat nat
  | NoShiftCorrectionNecessary
  | CorrectingShift
  | RelativeOvershift real real
  | TranslatingLeft
  | TranslatingRight
  | TranslatingUp
  | TranslatingDown
  | NoSolutionFound

datatype event =
    AbsoluteMove StagePosition
  | AcquireStemImage
  | Blank
  | PiezoRelativeMoveX real
  | PiezoRelativeMoveY real
  | Print printed

text \<open>The variables of the script that outlive an iteration.\<close>

record TilingState =
  adornedImage_list :: "AdornedImage list"
  images_list :: "ndarray list"
  acquired :: nat
  events :: "event list"

definition emit :: "event list \<Rightarrow> TilingState \<Rightarrow> TilingState" where
  "emit es st = st\<lparr>events := events st @ es\<rparr>"

definition acquire_stem_image :: "Microscope \<Rightarrow> TilingState \<Rightarrow> AdornedImage \<times> TilingState" where
  "acquire_stem_image microscope st =
     (stem_images microscope (acquired st),
      st\<lparr>acquired := Suc (acquired st), events := events st @ [AcquireStemImage]\<rparr>)"

text \<open>\<open>np.copy(haadf_read_only.data).astype(np.float64)\<close>.\<close>

definition astype_float64 :: "nat list list \<Rightarrow> ndarray" where
  "astype_float64 d = map (map (\<lambda>v. Fin (real v))) d"

definition PIXEL_SIZE :: "Microscope \<Rightarrow> real" where
  "PIXEL_SIZE microscope = scan_field_of_view microscope / IMAGE_SIZE"

definition DESIRED_RELATIVE_SHIFT :: "Microscope \<Rightarrow> real" where
  "DESIRED_RELATIVE_SHIFT microscope = DESIRED_SHIFT_PIXELS * PIXEL_SIZE microscope"

text \<open>
  Lines 161 to 170: the peak index of the seam between the previous image
  (\<open>images_list[-2]\<close>) and the current one (\<open>images_list[-1]\<close>). \<open>bin_image\<close> is called
  with its default \<open>bin_factor=4\<close>.
\<close>

definition seam_peak_index :: "ndarray \<Rightarrow> ndarray \<Rightarrow> py_error + int \<times> int" where
  "seam_peak_index previous current =
     (case bin_image previous 4 of
        Inl e \<Rightarrow> Inl e
      | Inr full_template_img \<Rightarrow>
          (case bin_image current 4 of
             Inl e \<Rightarrow> Inl e
           | Inr current_img \<Rightarrow>
               cross_correlate current_img (generate_template full_template_img OVERLAP_FACTOR)))"

text \<open>Lines 175 to 178: the acceptance test of the correction sub-loop.\<close>

definition within_tolerance :: "int \<times> int \<Rightarrow> bool" where
  "within_tolerance peak_index =
     (\<bar>fst peak_index\<bar> \<le> SHIFT_TOLERANCE_PIXELS \<and> \<bar>snd peak_index\<bar> \<le> SHIFT_TOLERANCE_PIXELS)"

text \<open>
  One pass through the body of \<open>while True\<close> (lines 158 to 235), up to and including
  \<open>correction_attempts += 1\<close>. The pass ends the loop (\<open>Stop\<close>: the \<open>break\<close> of line 181,
  or an exception, which leaves the \<open>try\<close> block) or goes on to the test of line 237
  (\<open>Retry\<close>). \<open>xs[-1]\<close> and \<open>xs[-2]\<close> raise \<open>IndexError\<close> on a list that is too short.
\<close>

datatype 'a outcome = Raised py_error 'a | Done 'a

datatype pass = Stop "TilingState outcome" | Retry TilingState

definition correction_pass :: "Microscope \<Rightarrow> StagePosition \<Rightarrow> TilingState \<Rightarrow> pass" where
  "correction_pass microscope desired_abs_stage_pos st =
     (if length (images_list st) < 2 then Stop (Raised IndexError st)
      else
        case seam_peak_index (images_list st ! (length (images_list st) - 2))
                             (last (images_list st)) of
          Inl e \<Rightarrow> Stop (Raised e st)
        | Inr peak_index \<Rightarrow>
            if within_tolerance peak_index
            then Stop (Done (emit [Print NoShiftCorrectionNecessary] st))
            else
              let st = emit [Print CorrectingShift] st;
                  relative_overshift_x =
                    real_of_int (snd peak_index) * real_of_int BIN_FACTOR * PIXEL_SIZE microscope;
                  relative_overshift_y =
                    real_of_int (fst peak_index) * real_of_int BIN_FACTOR * PIXEL_SIZE microscope;
                  st = emit [Print (RelativeOvershift relative_overshift_y relative_overshift_x)] st
              in if adornedImage_list st = [] then Stop (Raised IndexError st)
                 else
                   let current_image_stage_pos = stage_position (last (adornedImage_list st));
                       st = (if sp_x current_image_stage_pos > sp_x desired_abs_stage_pos
                             then emit [PiezoRelativeMoveX (- relative_overshift_x),
                                        Print TranslatingLeft] st
                             else emit [PiezoRelativeMoveX relative_overshift_x,
                                        Print TranslatingRight] st);
                       st = (if sp_y current_image_stage_pos > sp_y desired_abs_stage_pos
                             then emit [PiezoRelativeMoveY (- relative_overshift_y),
                                        Print TranslatingUp] st
                             else emit [PiezoRelativeMoveY relative_overshift_y,
                                        Print TranslatingDown] st);
                       (haadf_read_only, st) = acquire_stem_image microscope st;
                       haadf_data = astype_float64 (img_data haadf_read_only);
                       st = emit [Blank] st;
                       st = st\<lparr>images_list :=
                                 (images_list st)[length (images_list st) - 1 := haadf_data]\<rparr>;
                       st = st\<lparr>adornedImage_list :=
                                 (adornedImage_list st)
                                   [length (adornedImage_list st) - 1 := haadf_read_only]\<rparr>
                   in Retry st)"

text \<open>
  The correction sub-loop (lines 155 to 239), entered with \<open>correction_attempts = 0\<close>.
  The loop is \<open>while True\<close>: that it ends is a theorem, not part of the definition, so
  the result is an option and \<open>None\<close> stands for a loop that runs forever.
\<close>

partial_function (option) correction_loop ::
    "Microscope \<Rightarrow> StagePosition \<Rightarrow> nat \<Rightarrow> TilingState \<Rightarrow> TilingState outcome option" where
  "correction_loop microscope desired_abs_stage_pos correction_attempts st =
     (case correction_pass microscope desired_abs_stage_pos st of
        Stop result \<Rightarrow> Some result
      | Retry st \<Rightarrow>
          if correction_attempts + 1 = 10
          then Some (Done (emit [Print NoSolutionFound] st))
          else correction_loop microscope desired_abs_stage_pos (correction_attempts + 1) st)"

text \<open>
  The body of \<open>for j in range(NO_COLS_TO_TILE)\<close> (lines 115 to 151): choose the desired
  stage position, move there, acquire, blank, and append the image to both lists. It
  returns the new \<open>desired_abs_stage_pos\<close> with the state.
\<close>

definition acquire_tile ::
    "Microscope \<Rightarrow> nat \<Rightarrow> nat \<Rightarrow> TilingState \<Rightarrow> (StagePosition \<times> TilingState) outcome" where
  "acquire_tile microscope i j st =
     (let original_stage_pos = initial_stage_position microscope;
          chosen =
            (if i = 0 \<and> j = 0
             then Done (original_stage_pos,
                        emit [Print (DesiredAbsStagePos original_stage_pos)] st)
             else if adornedImage_list st = [] then Raised IndexError (original_stage_pos, st)
             else
               let previous = stage_position (last (adornedImage_list st)) in
               if j = 0
               then (let desired = previous\<lparr>sp_y := sp_y previous + DESIRED_RELATIVE_SHIFT microscope\<rparr>;
                         desired = desired\<lparr>sp_x := sp_x original_stage_pos\<rparr>
                     in Done (desired, emit [Print (DesiredAbsStagePos1 desired)] st))
               else (let desired = previous\<lparr>sp_x := sp_x previous + DESIRED_RELATIVE_SHIFT microscope\<rparr>
                     in Done (desired, emit [Print (DesiredAbsStagePos2 desired)] st)))
      in case chosen of
           Raised e r \<Rightarrow> Raised e r
         | Done (desired_abs_stage_pos, st) \<Rightarrow>
             (let st = emit [AbsoluteMove desired_abs_stage_pos] st;
                  (haadf_read_only, st) = acquire_stem_image microscope st;
                  haadf_data = astype_float64 (img_data haadf_read_only);
                  st = emit [Blank] st;
                  st = st\<lparr>adornedImage_list := adornedImage_list st @ [haadf_read_only]\<rparr>;
                  st = st\<lparr>images_list := images_list st @ [haadf_data]\<rparr>
              in Done (desired_abs_stage_pos, st)))"

text \<open>The loop \<open>for j in range(NO_COLS_TO_TILE)\<close> of row \<open>i\<close>, over the remaining \<open>j\<close>.\<close>

fun column_loop ::
    "Microscope \<Rightarrow> nat \<Rightarrow> nat list \<Rightarrow> StagePosition \<times> TilingState \<Rightarrow>
     (StagePosition \<times> TilingState) outcome" where
  "column_loop microscope i [] (desired_abs_stage_pos, st) = Done (desired_abs_stage_pos, st)"
| "column_loop microscope i (j # js) (desired_abs_stage_pos, st) =
     (case acquire_tile microscope i j st of
        Raised e r \<Rightarrow> Raised e r
      | Done r \<Rightarrow> column_loop microscope i js r)"

text \<open>
  The loop \<open>for i in range(NO_ROWS_TO_TILE)\<close> (lines 111 to 239), over the remaining
  \<open>i\<close>. The statement \<open>if j > 0:\<close> of line 153 is indented as the inner \<open>for\<close>: it runs
  once per row, after the inner loop has ended, and \<open>j\<close> is then the last column index
  (with no column at all, \<open>j\<close> was never assigned: \<open>NameError\<close>).
\<close>

fun row_loop ::
    "Microscope \<Rightarrow> nat \<Rightarrow> nat list \<Rightarrow> StagePosition \<times> TilingState \<Rightarrow>
     TilingState outcome option" where
  "row_loop microscope no_cols [] (desired_abs_stage_pos, st) = Some (Done st)"
| "row_loop microscope no_cols (i # is) (desired_abs_stage_pos, st) =
     (case column_loop microscope i [0..<no_cols] (desired_abs_stage_pos, st) of
        Raised e (d, st) \<Rightarrow> Some (Raised e st)
      | Done (desired_abs_stage_pos, st) \<Rightarrow>
          if no_cols = 0 then Some (Raised NameError st)
          else
            let j = no_cols - 1 in
            if j > 0
            then (let correction_attempts = 0;
                      st = emit [Print (ImageTag i j)] st
                  in case correction_loop microscope desired_abs_stage_pos correction_attempts st of
                       None \<Rightarrow> None
                     | Some (Raised e st) \<Rightarrow> Some (Raised e st)
                     | Some (Done st) \<Rightarrow> row_loop microscope no_cols is (desired_abs_stage_pos, st))
            else row_loop microscope no_cols is (desired_abs_stage_pos, st))"

text \<open>
  The tiling loop from the state at line 110: both lists empty, nothing acquired. (Before
  its first assignment \<open>desired_abs_stage_pos\<close> is never read; the start position stands
  in for it.)
\<close>

definition tiling_loop :: "Microscope \<Rightarrow> nat \<Rightarrow> nat \<Rightarrow> TilingState outcome option" where
  "tiling_loop microscope no_rows no_cols =
     row_loop microscope no_cols [0..<no_rows]
       (initial_stage_position microscope,
        \<lparr>adornedImage_list = [], images_list = [], acquired = 0, events = []\<rparr>)"

section \<open>Notions used to state the properties\<close>

text \<open>The state in which an outcome leaves the script.\<close>

fun state_of :: "'a outcome \<Rightarrow> 'a" where
  "state_of (Raised e s) = s"
| "state_of (Done s) = s"

text \<open>
  The state \<open>st'\<close> after a pass of the correction sub-loop that started in \<open>st\<close> and did
  not stop: one more image was acquired, and it replaced the last entry of both lists.
\<close>

definition retried :: "Microscope \<Rightarrow> TilingState \<Rightarrow> TilingState \<Rightarrow> bool" where
  "retried microscope st st' \<longleftrightarrow>
     acquired st' = Suc (acquired st) \<and>
     images_list st' = (images_list st)
        [length (images_list st) - 1 :=
           astype_float64 (img_data (stem_images microscope (acquired st)))] \<and>
     adornedImage_list st' = (adornedImage_list st)
        [length (adornedImage_list st) - 1 := stem_images microscope (acquired st)] \<and>
     count_list (events st') AcquireStemImage = Suc (count_list (events st) AcquireStemImage) \<and>
     count_list (events st') (Print CorrectingShift) =
       Suc (count_list (events st) (Print CorrectingShift))"

text \<open>
  An array of real entries read at integer coordinates, 0 outside its bounds: what
  \<open>fill_at\<close> reads in an array of finite values.
\<close>

definition real_at :: "real list list \<Rightarrow> int \<Rightarrow> int \<Rightarrow> real" where
  "real_at img r c =
     (if 0 \<le> r \<and> r < int (nrows img) \<and> 0 \<le> c \<and> c < int (ncols img)
      then img ! nat r ! nat c else 0)"



text \<open>
  A microscope whose every image is the same ramp: 1024 by 1024 counts that grow from
  left to right, by one every four columns. (Used to show that the sub-loop can fail to
  converge.)
\<close>

definition ramp_counts :: "nat list list" where
  "ramp_counts = replicate 1024 (map (\<lambda>x. x div 4) [0..<1024])"

definition ramp_image :: AdornedImage where
  "ramp_image = \<lparr>img_data = ramp_counts, stage_position = \<lparr>sp_x = 0, sp_y = 0\<rparr>\<rparr>"

definition ramp_microscope :: Microscope where
  "ramp_microscope =
     \<lparr>scan_field_of_view = 1, initial_stage_position = \<lparr>sp_x = 0, sp_y = 0\<rparr>,
      stem_images = (\<lambda>n. ramp_image)\<rparr>"

text \<open>The state of the script after two ramp images were acquired.\<close>

definition ramp_state :: TilingState where
  "ramp_state =
     \<lparr>adornedImage_list = [ramp_image, ramp_image],
      images_list = [astype_float64 ramp_counts, astype_float64 ramp_counts],
      acquired = 2, events = []\<rparr>"

text \<open>
  A vector entry that is 0 or of a magnitude between \<open>2^-500\<close> and \<open>2^500\<close>: the
  products and sums of two such entries stay inside the range of \<open>float64\<close>.
\<close>

definition in_safe_range :: "real \<Rightarrow> bool" where
  "in_safe_range c \<longleftrightarrow> c = 0 \<or> (1 / 2 ^ 500 \<le> \<bar>c\<bar> \<and> \<bar>c\<bar> \<le> 2 ^ 500)"

section \<open>Lemmas about lists and arrays\<close>

lemma np_sum_Fin: "np_sum (map (\<lambda>i. Fin (g i)) is) = Fin (\<Sum>i\<leftarrow>is. g i)"
  by (induction "is") (simp_all add: np_sum_def)

lemma np_sum_Fin_upt: "np_sum (map (\<lambda>i. Fin (g i)) [0..<n]) = Fin (\<Sum>i<n. g i)"
  by (simp add: np_sum_Fin interv_sum_list_conv_sum_set_nat atLeast0LessThan)

lemma length_concat_rect:
  "\<forall>r\<in>set xss. length r = n \<Longrightarrow> length (concat xss) = length xss * n"
  by (induction xss) auto

lemma concat_nth_rect:
  "\<forall>r\<in>set xss. length r = n \<Longrightarrow> i < length xss \<Longrightarrow> j < n \<Longrightarrow>
   concat xss ! (i * n + j) = xss ! i ! j"
proof (induction xss arbitrary: i)
  case Nil
  then show ?case by simp
next
  case (Cons r xss)
  show ?case
  proof (cases i)
    case 0
    with Cons.prems show ?thesis by (simp add: nth_append)
  next
    case (Suc k)
    with Cons.prems have "concat xss ! (k * n + j) = xss ! k ! j"
      by (intro Cons.IH) auto
    with Suc Cons.prems show ?thesis by (simp add: nth_append add.assoc)
  qed
qed

lemma block_index:
  fixes a b c d f :: nat
  shows "((a * f + b) * 256 + c) * f + d = (a * f + b) * (256 * f) + (c * f + d)"
  by (simp add: algebra_simps)

lemma block_bound:
  fixes c d f :: nat
  assumes "c < 256" "d < f"
  shows "c * f + d < 256 * f"
proof -
  have "c * f + d < c * f + f" using assms by simp
  also have "\<dots> = (c + 1) * f" by (simp add: algebra_simps)
  also have "\<dots> \<le> 256 * f" using assms by (intro mult_le_mono1) simp
  finally show ?thesis .
qed

lemma finite_image_nth:
  "i < length img \<Longrightarrow> j < length (img ! i) \<Longrightarrow> finite_image img ! i ! j = Fin (img ! i ! j)"
  by (simp add: finite_image_def)

lemma bin_image_square:
  assumes f: "0 < f" and rows: "length img = 256 * f"
    and cols: "\<forall>row\<in>set img. length row = 256 * f"
  shows "bin_image (finite_image img) (int f) =
    Inr (map (\<lambda>a. map (\<lambda>c. Fin ((\<Sum>b<f. \<Sum>d<f. img ! (a * f + b) ! (c * f + d)) / real (f * f)))
          [0..<256]) [0..<256])"
proof -
  let ?F = "finite_image img"
  have cols': "\<forall>row\<in>set ?F. length row = 256 * f"
    using cols by (simp add: finite_image_def)
  have rows': "length ?F = 256 * f"
    using rows by (simp add: finite_image_def)
  have len: "length (concat ?F) = 256 * f * 256 * f"
    using length_concat_rect [OF cols'] rows' by simp
  have entry: "concat ?F ! (((a * f + b) * 256 + c) * f + d) = Fin (img ! (a * f + b) ! (c * f + d))"
    if "a < 256" "c < 256" "b < f" "d < f" for a b c d
  proof -
    have r: "a * f + b < length img" and k: "c * f + d < 256 * f"
      using block_bound [OF \<open>a < 256\<close> \<open>b < f\<close>] block_bound [OF \<open>c < 256\<close> \<open>d < f\<close>] rows
      by simp_all
    have "concat ?F ! ((a * f + b) * (256 * f) + (c * f + d)) = ?F ! (a * f + b) ! (c * f + d)"
      using cols' rows' rows r k by (intro concat_nth_rect) auto
    also have "\<dots> = Fin (img ! (a * f + b) ! (c * f + d))"
      using r k cols by (intro finite_image_nth) auto
    finally show ?thesis unfolding block_index .
  qed
  have inner: "np_sum (map (\<lambda>d. concat ?F ! (((a * f + b) * 256 + c) * f + d)) [0..<f])
      = Fin (\<Sum>d<f. img ! (a * f + b) ! (c * f + d))"
    if "a < 256" "c < 256" "b < f" for a b c
  proof -
    have "map (\<lambda>d. concat ?F ! (((a * f + b) * 256 + c) * f + d)) [0..<f]
        = map (\<lambda>d. Fin (img ! (a * f + b) ! (c * f + d))) [0..<f]"
      using that by (intro map_cong refl entry) simp_all
    then show ?thesis by (simp only: np_sum_Fin_upt)
  qed
  have cell: "np_sum (map (\<lambda>b. np_sum (map (\<lambda>d.
        concat ?F ! (((a * f + b) * 256 + c) * f + d)) [0..<f])) [0..<f])
      = Fin (\<Sum>b<f. \<Sum>d<f. img ! (a * f + b) ! (c * f + d))"
    if "a < 256" "c < 256" for a c
  proof -
    have "map (\<lambda>b. np_sum (map (\<lambda>d. concat ?F ! (((a * f + b) * 256 + c) * f + d)) [0..<f])) [0..<f]
        = map (\<lambda>b. Fin (\<Sum>d<f. img ! (a * f + b) ! (c * f + d))) [0..<f]"
      using that by (intro map_cong refl inner) simp_all
    then show ?thesis by (simp only: np_sum_Fin_upt)
  qed
  have binned: "map (\<lambda>a. map (\<lambda>c. np_sum (map (\<lambda>b. np_sum (map (\<lambda>d.
            concat ?F ! (((a * f + b) * 256 + c) * f + d)) [0..<f])) [0..<f])) [0..<256]) [0..<256]
      = map (\<lambda>a. map (\<lambda>c. Fin (\<Sum>b<f. \<Sum>d<f. img ! (a * f + b) ! (c * f + d))) [0..<256]) [0..<256]"
    by (intro map_cong refl cell) simp_all
  have nz: "real f * real f \<noteq> 0" using f by simp
  have "\<not> (int f < 0 \<or> length (concat ?F) \<noteq> 256 * nat (int f) * 256 * nat (int f))"
    using len by simp
  then have "bin_image ?F (int f) =
      Inr (map (map (\<lambda>v. np_div v (real_of_int (int f * int f))))
        (map (\<lambda>a. map (\<lambda>c. Fin (\<Sum>b<f. \<Sum>d<f. img ! (a * f + b) ! (c * f + d))) [0..<256]) [0..<256]))"
    unfolding bin_image_def Let_def nat_int binned by (simp only: if_False)
  then show ?thesis
    using nz by (simp add: comp_def)
qed

lemma bin_image_wrong_size:
  assumes "length img = N" "\<forall>row\<in>set img. length row = N" "N \<noteq> 256 * f"
  shows "bin_image (finite_image img) (int f) = Inl ValueError"
proof -
  have "\<forall>row\<in>set (finite_image img). length row = N"
    using assms(2) by (simp add: finite_image_def)
  then have len: "length (concat (finite_image img)) = N * N"
    using length_concat_rect [of "finite_image img" N] assms(1) by (simp add: finite_image_def)
  have "N * N \<noteq> (256 * f) * (256 * f)"
  proof
    assume "N * N = (256 * f) * (256 * f)"
    then have "N ^ 2 = (256 * f) ^ 2" by (simp only: power2_eq_square)
    then have "N = 256 * f" by (simp only: power2_eq_iff_nonneg [OF le0 le0])
    with assms(3) show False by simp
  qed
  then have "length (concat (finite_image img)) \<noteq> 256 * f * 256 * f"
    unfolding len by (simp add: mult.assoc mult.left_commute)
  then show ?thesis by (simp add: bin_image_def)
qed

lemma argmax_from_bound:
  "max_ind < i \<Longrightarrow> argmax_from i max_ind mp vs < i + length vs"
proof (induction vs arbitrary: i max_ind mp)
  case Nil
  then show ?case by simp
next
  case (Cons v vs)
  have a: "argmax_from (Suc i) i v vs < Suc i + length vs"
    by (rule Cons.IH) simp
  have b: "argmax_from (Suc i) max_ind mp vs < Suc i + length vs"
    using Cons.prems by (intro Cons.IH) simp
  show ?case using a b Cons.prems by simp
qed

lemma np_argmax_bound:
  assumes "vs \<noteq> []"
  shows "\<exists>k. np_argmax vs = Inr k \<and> k < length vs"
proof (cases vs)
  case Nil
  with assms show ?thesis by simp
next
  case (Cons v rest)
  have "argmax_from 1 0 v rest < 1 + length rest"
    by (rule argmax_from_bound) simp
  with Cons show ?thesis by (simp add: np_argmax_def)
qed

lemma ncols_rect:
  "length img = H \<Longrightarrow> 0 < H \<Longrightarrow> \<forall>row\<in>set img. length row = W \<Longrightarrow> ncols img = W"
  by (cases img) (auto simp: ncols_def)

lemma corr_valid_shape:
  "length (corr_valid in1 in2) = nrows in1 - nrows in2 + 1"
  "\<forall>row\<in>set (corr_valid in1 in2). length row = ncols in1 - ncols in2 + 1"
  by (auto simp: corr_valid_def)

lemma argmax_from_no_better:
  "\<forall>x\<in>set xs. x \<le> m \<Longrightarrow> argmax_from i max_ind (Fin m) (map Fin xs) = max_ind"
  by (induction xs arbitrary: i) simp_all

lemma argmax_from_unique:
  assumes "p < length xs" and "\<forall>q<length xs. q \<noteq> p \<longrightarrow> xs ! q < xs ! p" and "m < xs ! p"
  shows "argmax_from i max_ind (Fin m) (map Fin xs) = i + p"
  using assms
proof (induction xs arbitrary: i max_ind m p)
  case Nil
  then show ?case by simp
next
  case (Cons x xs)
  show ?case
  proof (cases p)
    case 0
    have "\<forall>y\<in>set xs. y \<le> x"
    proof
      fix y assume "y \<in> set xs"
      then obtain q where "q < length xs" "xs ! q = y" by (auto simp: in_set_conv_nth)
      then have "(x # xs) ! Suc q < (x # xs) ! p"
        using Cons.prems(2) 0 by (intro Cons.prems(2) [rule_format]) auto
      with 0 \<open>xs ! q = y\<close> show "y \<le> x" by simp
    qed
    then have "argmax_from (Suc i) i (Fin x) (map Fin xs) = i"
      by (rule argmax_from_no_better)
    with 0 Cons.prems(3) show ?thesis by simp
  next
    case (Suc p')
    have p': "p' < length xs" using Cons.prems(1) Suc by simp
    have uniq: "\<forall>q<length xs. q \<noteq> p' \<longrightarrow> xs ! q < xs ! p'"
    proof (intro allI impI)
      fix q assume "q < length xs" "q \<noteq> p'"
      then have "(x # xs) ! Suc q < (x # xs) ! p"
        using Suc by (intro Cons.prems(2) [rule_format]) auto
      with Suc show "xs ! q < xs ! p'" by simp
    qed
    have x: "x < xs ! p'"
      using Cons.prems(2) [rule_format, of 0] Suc by simp
    have m: "m < xs ! p'" using Cons.prems(3) Suc by simp
    have a: "argmax_from (Suc i) i (Fin x) (map Fin xs) = Suc i + p'"
      using p' uniq x by (rule Cons.IH)
    have b: "argmax_from (Suc i) max_ind (Fin m) (map Fin xs) = Suc i + p'"
      using p' uniq m by (rule Cons.IH)
    show ?thesis using a b Suc by simp
  qed
qed

lemma np_argmax_unique:
  assumes "p < length xs" and "\<forall>q<length xs. q \<noteq> p \<longrightarrow> xs ! q < xs ! p"
  shows "np_argmax (map Fin xs) = Inr p"
proof (cases xs)
  case Nil
  with assms show ?thesis by simp
next
  case (Cons x rest)
  show ?thesis
  proof (cases p)
    case 0
    have "\<forall>y\<in>set rest. y \<le> x"
    proof
      fix y assume "y \<in> set rest"
      then obtain q where "q < length rest" "rest ! q = y" by (auto simp: in_set_conv_nth)
      then have "xs ! Suc q < xs ! p"
        using Cons 0 by (intro assms(2) [rule_format]) auto
      with 0 Cons \<open>rest ! q = y\<close> show "y \<le> x" by simp
    qed
    then have "argmax_from 1 0 (Fin x) (map Fin rest) = 0"
      by (rule argmax_from_no_better)
    with 0 Cons show ?thesis by (simp add: np_argmax_def)
  next
    case (Suc p')
    have p': "p' < length rest" using assms(1) Suc Cons by simp
    have uniq: "\<forall>q<length rest. q \<noteq> p' \<longrightarrow> rest ! q < rest ! p'"
    proof (intro allI impI)
      fix q assume "q < length rest" "q \<noteq> p'"
      then have "xs ! Suc q < xs ! p"
        using Suc Cons by (intro assms(2) [rule_format]) auto
      with Suc Cons show "rest ! q < rest ! p'" by simp
    qed
    have x: "x < rest ! p'"
      using assms(2) [rule_format, of 0] Suc Cons by simp
    have "argmax_from 1 0 (Fin x) (map Fin rest) = 1 + p'"
      using p' uniq x by (rule argmax_from_unique)
    with Suc Cons show ?thesis by (simp add: np_argmax_def)
  qed
qed

lemma ncols_finite_image [simp]: "ncols (finite_image img) = ncols img"
  by (cases img) (simp_all add: ncols_def finite_image_def)

lemma nrows_finite_image [simp]: "nrows (finite_image img) = nrows img"
  by (simp add: nrows_def finite_image_def)

lemma fill_at_finite:
  assumes "\<forall>row\<in>set img. length row = ncols img"
  shows "fill_at (finite_image img) r c = Fin (real_at img r c)"
proof (cases "0 \<le> r \<and> r < int (nrows img) \<and> 0 \<le> c \<and> c < int (ncols img)")
  case True
  then have r: "nat r < length img" by (simp add: nrows_def nat_less_iff)
  then have "length (img ! nat r) = ncols img" using assms by simp
  with True have c: "nat c < length (img ! nat r)" by (simp add: nat_less_iff)
  have "fill_at (finite_image img) r c = finite_image img ! nat r ! nat c"
    using True by (simp add: fill_at_def)
  also have "\<dots> = Fin (img ! nat r ! nat c)"
    using r c by (rule finite_image_nth)
  finally show ?thesis using True by (simp add: real_at_def)
next
  case False
  then show ?thesis by (auto simp add: fill_at_def real_at_def)
qed

lemma corr_entry_finite:
  assumes in1: "\<forall>row\<in>set in1. length row = ncols in1"
    and in2: "\<forall>row\<in>set in2. length row = ncols in2"
  shows "corr_entry (finite_image in1) (finite_image in2) r c =
     Fin (\<Sum>i<nrows in2. \<Sum>j<ncols in2. real_at in1 (r + int i) (c + int j) * in2 ! i ! j)"
proof -
  have inner: "np_sum (map (\<lambda>j. np_mul (fill_at (finite_image in1) (r + int i) (c + int j))
                  (finite_image in2 ! i ! j)) [0..<ncols in2])
      = Fin (\<Sum>j<ncols in2. real_at in1 (r + int i) (c + int j) * in2 ! i ! j)"
    if "i < nrows in2" for i
  proof -
    have len: "length (in2 ! i) = ncols in2" using that in2 by (simp add: nrows_def)
    have "map (\<lambda>j. np_mul (fill_at (finite_image in1) (r + int i) (c + int j))
                  (finite_image in2 ! i ! j)) [0..<ncols in2]
        = map (\<lambda>j. Fin (real_at in1 (r + int i) (c + int j) * in2 ! i ! j)) [0..<ncols in2]"
      using that len
      by (intro map_cong refl) (simp add: fill_at_finite [OF in1] finite_image_nth nrows_def)
    then show ?thesis by (simp only: np_sum_Fin_upt)
  qed
  have "map (\<lambda>i. np_sum (map (\<lambda>j. np_mul (fill_at (finite_image in1) (r + int i) (c + int j))
                  (finite_image in2 ! i ! j)) [0..<ncols in2])) [0..<nrows in2]
      = map (\<lambda>i. Fin (\<Sum>j<ncols in2. real_at in1 (r + int i) (c + int j) * in2 ! i ! j))
          [0..<nrows in2]"
    by (intro map_cong refl inner) simp
  then show ?thesis
    unfolding corr_entry_def nrows_finite_image ncols_finite_image
    by (simp only: np_sum_Fin_upt)
qed

section \<open>Lemmas about the range of float64\<close>

lemma float64_overflow_gt: "2 ^ 1010 < float64_overflow"
  by (simp add: float64_overflow_def)

lemma float64_underflow_lt: "float64_underflow < 1 / 2 ^ 1000" "0 < float64_underflow"
  by (simp_all add: float64_underflow_def)

lemma fl64_zero [simp]: "fl64 0 = Fin 0"
  using float64_overflow_gt float64_underflow_lt(2)
  by (simp add: fl64_def)

lemma fl64_exact:
  assumes "1 / 2 ^ 1000 \<le> \<bar>v\<bar>" "\<bar>v\<bar> \<le> 2 ^ 1010"
  shows "fl64 v = Fin v"
  using assms float64_overflow_gt float64_underflow_lt(1)
  by (auto simp add: fl64_def)

lemma fl64_finite:
  assumes "\<bar>v\<bar> \<le> 2 ^ 1010"
  shows "\<exists>w. fl64 v = Fin w \<and> \<bar>w\<bar> \<le> \<bar>v\<bar>"
  using assms float64_overflow_gt
  by (auto simp add: fl64_def)

lemma fl64_not_nan [simp]: "fl64 v \<noteq> NaN"
  by (simp add: fl64_def)

lemma fl64_one [simp]: "fl64 1 = Fin 1" and fl64_ninety [simp]: "fl64 90 = Fin 90"
  and fl64_minus_ninety [simp]: "fl64 (- 90) = Fin (- 90)"
  and fl64_minus_one [simp]: "fl64 (- 1) = Fin (- 1)"
  by (rule fl64_exact; simp)+

lemma np_dot_zero [simp]: "np_dot (0, 0) v = Fin 0" "np_dot v (0, 0) = Fin 0"
  by (simp_all add: np_dot_def)

lemma np_cross_zero [simp]: "np_cross (0, 0) v = Fin 0" "np_cross v (0, 0) = Fin 0"
  by (simp_all add: np_cross_def)

lemma np_linalg_norm_zero [simp]: "np_linalg_norm (0, 0) = Fin 0"
  by (simp add: np_linalg_norm_def)

lemma zero_times_magnitude:
  "np_result (np_mul (Fin 0) m) = Fin 0 \<or> np_result (np_mul (Fin 0) m) = NaN"
  "np_result (np_mul m (Fin 0)) = Fin 0 \<or> np_result (np_mul m (Fin 0)) = NaN"
  by (cases m; simp)+

lemma zero_over_zero:
  "p = Fin 0 \<or> p = NaN \<Longrightarrow> np_result (np_truediv (Fin 0) p) = NaN"
  by auto

lemma fl64_small:
  assumes "\<bar>v\<bar> \<le> 180"
  shows "\<exists>w. fl64 v = Fin w \<and> - 180 \<le> w \<and> w \<le> 180"
proof -
  have "\<bar>v\<bar> \<le> 2 ^ 1010" using assms by (rule order_trans) simp
  then obtain w where "fl64 v = Fin w" "\<bar>w\<bar> \<le> \<bar>v\<bar>" using fl64_finite by blast
  with assms show ?thesis by (intro exI [of _ w]) auto
qed

text \<open>The steps after the division, for a cosine \<open>u\<close> and a sign \<open>b\<close>.\<close>

lemma angle_of_cosine:
  fixes u :: npfloat and b :: bool
  defines "a \<equiv> np_arccos (np_clip u (- 1) 1)"
  shows "(u = NaN \<longrightarrow> np_result (np_degrees (if b then np_neg a else a)) = NaN) \<and>
         (u \<noteq> NaN \<longrightarrow> (\<exists>d. np_result (np_degrees (if b then np_neg a else a)) = Fin d \<and>
              - 180 \<le> d \<and> d \<le> 180))"
proof (cases "u = NaN")
  case True
  then show ?thesis by (simp add: a_def)
next
  case False
  then obtain c where c: "np_clip u (- 1) 1 = Fin c" "- 1 \<le> c" "c \<le> 1"
    by (cases u) auto
  have a: "a = Fin (arccos c)" using c by (simp add: a_def)
  have r: "0 \<le> arccos c" "arccos c \<le> pi"
    using c by (auto intro: arccos_lbound arccos_ubound)
  have d: "\<bar>(if b then - arccos c else arccos c) * 180 / pi\<bar> \<le> 180"
  proof -
    have "arccos c * 180 / pi \<le> 180"
      using r pi_gt_zero by (simp add: pos_divide_le_eq)
    moreover have "0 \<le> arccos c * 180 / pi" using r by simp
    ultimately show ?thesis by auto
  qed
  have "np_result (np_degrees (if b then np_neg a else a))
      = fl64 ((if b then - arccos c else arccos c) * 180 / pi)"
    by (simp add: a)
  with fl64_small [OF d] False show ?thesis by simp
qed

lemma safe_product:
  assumes "in_safe_range a" "in_safe_range b"
  shows "a * b = 0 \<or> (1 / 2 ^ 1000 \<le> \<bar>a * b\<bar> \<and> \<bar>a * b\<bar> \<le> 2 ^ 1000)"
proof (cases "a = 0 \<or> b = 0")
  case True
  then show ?thesis by auto
next
  case False
  then have a: "1 / 2 ^ 500 \<le> \<bar>a\<bar>" "\<bar>a\<bar> \<le> 2 ^ 500" and b: "1 / 2 ^ 500 \<le> \<bar>b\<bar>" "\<bar>b\<bar> \<le> 2 ^ 500"
    using assms by (auto simp: in_safe_range_def)
  have "\<bar>a\<bar> * \<bar>b\<bar> \<le> 2 ^ 500 * 2 ^ 500"
    using a(2) b(2) by (intro mult_mono) simp_all
  then have up: "\<bar>a * b\<bar> \<le> 2 ^ 1000" by (simp add: abs_mult flip: power_add)
  have "(1 / 2 ^ 500) * (1 / 2 ^ 500) \<le> \<bar>a\<bar> * \<bar>b\<bar>"
    using a(1) b(1) by (intro mult_mono) simp_all
  then have lo: "1 / 2 ^ 1000 \<le> \<bar>a * b\<bar>" by (simp add: abs_mult flip: power_add)
  show ?thesis using lo up by simp
qed

lemma fl64_safe_product:
  assumes "in_safe_range a" "in_safe_range b"
  shows "fl64 (a * b) = Fin (a * b)"
proof -
  from safe_product [OF assms] show ?thesis
  proof
    assume "a * b = 0"
    then show ?thesis by (simp only: fl64_zero)
  next
    assume "1 / 2 ^ 1000 \<le> \<bar>a * b\<bar> \<and> \<bar>a * b\<bar> \<le> 2 ^ 1000"
    then have "1 / 2 ^ 1000 \<le> \<bar>a * b\<bar>" "\<bar>a * b\<bar> \<le> 2 ^ 1010"
      by (auto elim: order_trans)
    then show ?thesis by (rule fl64_exact)
  qed
qed

lemma np_dot_safe:
  assumes "in_safe_range (fst v1)" "in_safe_range (snd v1)"
    and "in_safe_range (fst v2)" "in_safe_range (snd v2)"
  shows "\<exists>a. np_dot v1 v2 = Fin a"
proof -
  let ?p = "fst v1 * fst v2" and ?q = "snd v1 * snd v2"
  have p: "\<bar>?p\<bar> \<le> 2 ^ 1000" using safe_product [OF assms(1,3)] by auto
  have q: "\<bar>?q\<bar> \<le> 2 ^ 1000" using safe_product [OF assms(2,4)] by auto
  have "\<bar>?p + ?q\<bar> \<le> 2 ^ 1000 + 2 ^ 1000" using p q by linarith
  then have "\<bar>?p + ?q\<bar> \<le> 2 ^ 1010" by (rule order_trans) simp
  then obtain w where "fl64 (?p + ?q) = Fin w" using fl64_finite by blast
  then show ?thesis
    by (simp add: np_dot_def fl64_safe_product assms)
qed

lemma np_linalg_norm_safe:
  assumes "in_safe_range (fst v)" "in_safe_range (snd v)" "v \<noteq> (0, 0)"
  shows "\<exists>m. np_linalg_norm v = Fin m \<and> 1 / 2 ^ 500 \<le> m \<and> m \<le> 2 ^ 501"
proof -
  obtain x y where v: "v = (x, y)" by (cases v)
  let ?s = "x * x + y * y"
  have sx: "x * x = 0 \<or> (1 / 2 ^ 1000 \<le> \<bar>x * x\<bar> \<and> \<bar>x * x\<bar> \<le> 2 ^ 1000)"
    and sy: "y * y = 0 \<or> (1 / 2 ^ 1000 \<le> \<bar>y * y\<bar> \<and> \<bar>y * y\<bar> \<le> 2 ^ 1000)"
    using safe_product [of x x] safe_product [of y y] assms v by simp_all
  have nn: "0 \<le> x * x" "0 \<le> y * y" by simp_all
  have nz: "x * x \<noteq> 0 \<or> y * y \<noteq> 0" using assms(3) v by simp
  have lo: "1 / 2 ^ 1000 \<le> ?s" using sx sy nn nz by auto
  have up: "?s \<le> 2 ^ 1001"
  proof -
    have "x * x \<le> 2 ^ 1000" "y * y \<le> 2 ^ 1000" using sx sy by auto
    then show ?thesis by simp
  qed
  have "fl64 ?s = Fin ?s"
    using lo up by (intro fl64_exact) auto
  moreover have "\<not> ?s < 0" using nn by linarith
  ultimately have norm: "np_linalg_norm v = Fin (sqrt ?s)"
    using assms v by (simp add: np_linalg_norm_def np_dot_def fl64_safe_product)
  have "(1 / 2 ^ 500)\<^sup>2 \<le> ?s" using lo by (simp add: power_divide flip: power_mult)
  then have m_lo: "1 / 2 ^ 500 \<le> sqrt ?s" by (rule real_le_rsqrt)
  have "?s \<le> (2 ^ 501)\<^sup>2" using up by (rule order_trans) (simp flip: power_mult)
  then have m_up: "sqrt ?s \<le> 2 ^ 501" by (intro real_le_lsqrt) simp_all
  show ?thesis using norm m_lo m_up by blast
qed

lemma magnitude_product_safe:
  assumes "1 / 2 ^ 500 \<le> m1" "m1 \<le> 2 ^ 501" "1 / 2 ^ 500 \<le> m2" "m2 \<le> 2 ^ 501"
  shows "np_result (np_mul (Fin m1) (Fin m2)) = Fin (m1 * m2) \<and> m1 * m2 \<noteq> 0"
proof -
  have pos: "0 < m1" "0 < m2" using assms(1,3) by (auto elim: less_le_trans [rotated])
  have "(1 / 2 ^ 500) * (1 / 2 ^ 500) \<le> m1 * m2"
    using assms(1,3) by (intro mult_mono) simp_all
  then have lo: "1 / 2 ^ 1000 \<le> \<bar>m1 * m2\<bar>" using pos by (simp flip: power_add)
  have "m1 * m2 \<le> 2 ^ 501 * 2 ^ 501"
    using assms(2,4) pos by (intro mult_mono) simp_all
  then have "m1 * m2 \<le> 2 ^ 1002" by (simp flip: power_add)
  then have up: "\<bar>m1 * m2\<bar> \<le> 2 ^ 1010" using pos by (auto elim: order_trans)
  show ?thesis using fl64_exact [OF lo up] pos by simp
qed


section \<open>The autocorrelation of a finitely supported array\<close>






section \<open>The full correlation of an embedded template\<close>


lemma real_at_inside:
  assumes "length img = h" "\<forall>row\<in>set img. length row = w" "i < h" "j < w"
  shows "real_at img (int i) (int j) = img ! i ! j"
proof -
  have "0 < h" using assms(3) by simp
  then have "ncols img = w" using assms(1,2) by (intro ncols_rect [of _ h]) simp_all
  then show ?thesis using assms by (simp add: real_at_def nrows_def)
qed






lemma flat_index_eq:
  fixes k l k0 l0 C :: nat
  assumes "l < C" "l0 < C" "k * C + l = k0 * C + l0"
  shows "k = k0 \<and> l = l0"
proof -
  have "(k * C + l) div C = (k0 * C + l0) div C" "(k * C + l) mod C = (k0 * C + l0) mod C"
    using assms(3) by simp_all
  then show ?thesis using assms(1,2) by simp
qed



section \<open>The seam of two ramp images\<close>

text \<open>
  Binned by 4, the ramp is the array whose sample in column \<open>c\<close> is \<open>c\<close>; the template is
  its last 77 columns; the valid correlation has one row of 180 entries, which grow
  strictly with the column, so the peak index is \<open>(0, 179)\<close>.
\<close>

lemma ramp_astype:
  "astype_float64 ramp_counts =
     finite_image (replicate 1024 (map (\<lambda>x. real (x div 4)) [0..<1024]))"
  by (simp add: astype_float64_def ramp_counts_def finite_image_def comp_def)

lemma ramp_block:
  fixes a b c d :: nat
  assumes "a < 256" "c < 256" "b < 4" "d < 4"
  shows "replicate 1024 (map (\<lambda>x. real (x div 4)) [0..<1024]) ! (a * 4 + b) ! (c * 4 + d) = real c"
proof -
  have r: "a * 4 + b < 1024" and x: "c * 4 + d < 1024" using assms by simp_all
  have "(c * 4 + d) div 4 = c" using assms(4) by simp
  then show ?thesis using r x by simp
qed

lemma ramp_binned:
  "bin_image (astype_float64 ramp_counts) 4 =
     Inr (finite_image (map (\<lambda>a. map real [0..<256]) [0..<256]))"
proof -
  let ?R = "replicate 1024 (map (\<lambda>x. real (x div 4)) [0..<1024])"
  have b: "bin_image (finite_image ?R) (int 4) =
      Inr (map (\<lambda>a. map (\<lambda>c. Fin ((\<Sum>b<4. \<Sum>d<4. ?R ! (a * 4 + b) ! (c * 4 + d)) / real (4 * 4)))
          [0..<256]) [0..<256])"
    by (rule bin_image_square) simp_all
  have cell: "(\<Sum>b<4. \<Sum>d<4. ?R ! (a * 4 + b) ! (c * 4 + d)) / real (4 * 4) = real c"
    if "a < 256" "c < 256" for a c
  proof -
    have "(\<Sum>b<4. \<Sum>d<4. ?R ! (a * 4 + b) ! (c * 4 + d)) = (\<Sum>b<(4::nat). \<Sum>d<(4::nat). real c)"
      using that by (intro sum.cong refl ramp_block) simp_all
    then show ?thesis by simp
  qed
  have "map (\<lambda>a. map (\<lambda>c. Fin ((\<Sum>b<4. \<Sum>d<4. ?R ! (a * 4 + b) ! (c * 4 + d)) / real (4 * 4)))
          [0..<256]) [0..<256]
      = map (\<lambda>a. map (\<lambda>c. Fin (real c)) [0..<256]) [0..<256]"
    by (intro map_cong refl arg_cong [where f = Fin] cell) simp_all
  also have "\<dots> = finite_image (map (\<lambda>a. map real [0..<256]) [0..<256])"
    by (simp add: finite_image_def comp_def)
  finally show ?thesis using b by (simp add: ramp_astype)
qed

lemma ramp_binned_shape:
  "nrows (map (\<lambda>a. map real [0..<256]) [0..<256]) = 256"
  "ncols (map (\<lambda>a. map real [0..<256]) [0..<256]) = 256"
  "\<forall>row\<in>set (map (\<lambda>a. map real [0..<256]) [0..<256]). length row = 256"
proof -
  show "nrows (map (\<lambda>a. map real [0..<256]) [0..<256]) = 256" by (simp add: nrows_def)
  show "\<forall>row\<in>set (map (\<lambda>a. map real [0..<256]) [0..<256]). length row = 256" by simp
  then show "ncols (map (\<lambda>a. map real [0..<256]) [0..<256]) = 256"
    by (intro ncols_rect [of _ 256]) simp_all
qed

lemma ramp_template_shape:
  "nrows (map (\<lambda>a. map real [179..<256]) [0..<256]) = 256"
  "ncols (map (\<lambda>a. map real [179..<256]) [0..<256]) = 77"
  "\<forall>row\<in>set (map (\<lambda>a. map real [179..<256]) [0..<256]). length row = 77"
proof -
  show "nrows (map (\<lambda>a. map real [179..<256]) [0..<256]) = 256" by (simp add: nrows_def)
  show "\<forall>row\<in>set (map (\<lambda>a. map real [179..<256]) [0..<256]). length row = 77"
    by (simp del: upt_rec_numeral)
  then show "ncols (map (\<lambda>a. map real [179..<256]) [0..<256]) = 77"
    by (intro ncols_rect [of _ 256]) (simp_all del: upt_rec_numeral)
qed

lemma ramp_template:
  "generate_template (finite_image (map (\<lambda>a. map real [0..<256]) [0..<256])) OVERLAP_FACTOR =
     finite_image (map (\<lambda>a. map real [179..<256]) [0..<256])"
proof -
  let ?B = "map (\<lambda>a. map real [0..<256]) [0..<256]"
  have nc: "ncols (finite_image ?B) = 256"
    by (simp only: ncols_finite_image ramp_binned_shape)
  have "py_int (real 256 * (1 - OVERLAP_FACTOR)) = 179"
    by (simp add: py_int_def OVERLAP_FACTOR_def)
  then have st: "slice_start 256 (py_int (real 256 * (1 - OVERLAP_FACTOR))) = 179"
    by (simp add: slice_start_def)
  have "generate_template (finite_image ?B) OVERLAP_FACTOR = map (drop 179) (finite_image ?B)"
    unfolding generate_template_def nc st ..
  also have "\<dots> = finite_image (map (\<lambda>a. map real [179..<256]) [0..<256])"
    by (simp add: finite_image_def comp_def drop_map del: upt_rec_numeral)
  finally show ?thesis .
qed

lemma ramp_corr_entry:
  assumes "l < 180"
  shows "corr_entry (finite_image (map (\<lambda>a. map real [0..<256]) [0..<256]))
           (finite_image (map (\<lambda>a. map real [179..<256]) [0..<256])) (int 0) (int l)
       = Fin (\<Sum>i<(256::nat). \<Sum>j<(77::nat). real (l + j) * real (179 + j))"
proof -
  let ?B = "map (\<lambda>a. map real [0..<256]) [0..<256]"
  let ?T = "map (\<lambda>a. map real [179..<256]) [0..<256]"
  have rectB: "\<forall>row\<in>set ?B. length row = ncols ?B"
    using ramp_binned_shape(3) by (simp only: ramp_binned_shape(2))
  have rectT: "\<forall>row\<in>set ?T. length row = ncols ?T"
    using ramp_template_shape(3) by (simp only: ramp_template_shape(2))
  have "corr_entry (finite_image ?B) (finite_image ?T) (int 0) (int l)
      = Fin (\<Sum>i<(256::nat). \<Sum>j<(77::nat).
               real_at ?B (int 0 + int i) (int l + int j) * ?T ! i ! j)"
    using corr_entry_finite [OF rectB rectT, of "int 0" "int l"]
    by (simp only: ramp_template_shape)
  also have "(\<Sum>i<(256::nat). \<Sum>j<(77::nat).
               real_at ?B (int 0 + int i) (int l + int j) * ?T ! i ! j)
      = (\<Sum>i<(256::nat). \<Sum>j<(77::nat). real (l + j) * real (179 + j))"
  proof (intro sum.cong refl)
    fix i j :: nat assume "i \<in> {..<256}" "j \<in> {..<77}"
    then have ij: "i < 256" "j < 77" by simp_all
    have lj: "l + j < 256" using assms ij by simp
    have "real_at ?B (int i) (int (l + j)) = ?B ! i ! (l + j)"
      using ramp_binned_shape(3) ij(1) lj by (intro real_at_inside [of _ 256 256]) simp_all
    also have "\<dots> = real (l + j)" using ij(1) lj by simp
    finally have a: "real_at ?B (int 0 + int i) (int l + int j) = real (l + j)" by simp
    have b: "?T ! i ! j = real (179 + j)" using ij by (simp del: upt_rec_numeral)
    show "real_at ?B (int 0 + int i) (int l + int j) * ?T ! i ! j = real (l + j) * real (179 + j)"
      by (simp only: a b)
  qed
  finally show ?thesis .
qed

lemma ramp_score_mono:
  fixes q :: nat
  assumes "q < 179"
  shows "(\<Sum>i<(256::nat). \<Sum>j<(77::nat). real (q + j) * real (179 + j))
       < (\<Sum>i<(256::nat). \<Sum>j<(77::nat). real (179 + j) * real (179 + j))"
proof -
  have inner: "(\<Sum>j<(77::nat). real (q + j) * real (179 + j))
      < (\<Sum>j<(77::nat). real (179 + j) * real (179 + j))"
  proof (rule sum_strict_mono)
    show "finite {..<(77::nat)}" by simp
    show "{..<(77::nat)} \<noteq> {}" by (simp add: lessThan_empty_iff)
    show "real (q + j) * real (179 + j) < real (179 + j) * real (179 + j)" for j
      using assms by (intro mult_strict_right_mono) simp_all
  qed
  show ?thesis
  proof (rule sum_strict_mono)
    show "finite {..<(256::nat)}" by simp
    show "{..<(256::nat)} \<noteq> {}" by (simp add: lessThan_empty_iff)
    show "(\<Sum>j<(77::nat). real (q + j) * real (179 + j))
        < (\<Sum>j<(77::nat). real (179 + j) * real (179 + j))" for i :: nat
      by (rule inner)
  qed
qed

lemma ramp_cross_correlate:
  "cross_correlate (finite_image (map (\<lambda>a. map real [0..<256]) [0..<256]))
     (finite_image (map (\<lambda>a. map real [179..<256]) [0..<256])) = Inr (0, 179)"
proof -
  let ?B = "map (\<lambda>a. map real [0..<256]) [0..<256]"
  let ?T = "map (\<lambda>a. map real [179..<256]) [0..<256]"
  let ?g = "\<lambda>l::nat. (\<Sum>i<(256::nat). \<Sum>j<(77::nat). real (l + j) * real (179 + j))"
  have shape: "nrows (finite_image ?B) = 256" "ncols (finite_image ?B) = 256"
      "nrows (finite_image ?T) = 256" "ncols (finite_image ?T) = 77"
    by (simp_all only: nrows_finite_image ncols_finite_image ramp_binned_shape ramp_template_shape)
  have "corr_valid (finite_image ?B) (finite_image ?T)
      = map (\<lambda>k. map (\<lambda>l. corr_entry (finite_image ?B) (finite_image ?T) (int k) (int l))
            [0..<256 - 77 + 1]) [0..<256 - 256 + 1]"
    unfolding corr_valid_def shape ..
  also have "\<dots> = [map (\<lambda>l. corr_entry (finite_image ?B) (finite_image ?T) (int 0) (int l))
            [0..<180]]"
    by simp
  also have "map (\<lambda>l. corr_entry (finite_image ?B) (finite_image ?T) (int 0) (int l)) [0..<180]
      = map (\<lambda>l. Fin (?g l)) [0..<180]"
    by (intro map_cong refl ramp_corr_entry) simp
  finally have valid: "corr_valid (finite_image ?B) (finite_image ?T) = [map (\<lambda>l. Fin (?g l)) [0..<180]]" .
  have corr: "correlate2d (finite_image ?B) (finite_image ?T) Valid
      = Inr [map (\<lambda>l. Fin (?g l)) [0..<180]]"
    unfolding correlate2d_def corr_mode.case shape valid Let_def by simp
  have flat: "concat [map (\<lambda>l. Fin (?g l)) [0..<180]] = map Fin (map ?g [0..<180])"
    by (simp add: comp_def)
  have unique: "\<forall>q<length (map ?g [0..<180]). q \<noteq> 179 \<longrightarrow>
      map ?g [0..<180] ! q < map ?g [0..<180] ! 179"
  proof (intro allI impI)
    fix q assume "q < length (map ?g [0..<180])" "q \<noteq> 179"
    then have q: "q < 179" by simp
    then have "?g q < ?g 179" by (rule ramp_score_mono)
    then show "map ?g [0..<180] ! q < map ?g [0..<180] ! 179" using q by simp
  qed
  have argmax: "np_argmax (concat [map (\<lambda>l. Fin (?g l)) [0..<180]]) = Inr 179"
    unfolding flat by (rule np_argmax_unique [OF _ unique]) simp
  have sh: "nrows [map (\<lambda>l. Fin (?g l)) [0..<180]] = 1"
      "ncols [map (\<lambda>l. Fin (?g l)) [0..<180]] = 180"
    by (simp_all add: nrows_def ncols_def)
  show ?thesis
    unfolding cross_correlate_def corr sum.case argmax sh unravel_index_def snd_conv
    by simp
qed

lemma ramp_seam_peak_index:
  "seam_peak_index (astype_float64 ramp_counts) (astype_float64 ramp_counts) = Inr (0, 179)"
  by (simp add: seam_peak_index_def ramp_binned ramp_template ramp_cross_correlate
        del: upt_rec_numeral)

section \<open>Properties of the coordinate transforms\<close>

lemma rot_inverse_x:
  fixes c k a b :: real
  assumes "k * k + c * c = 1"
  shows "c * (c * a + - k * b) + k * (k * a + c * b) = a"
proof -
  have "c * (c * a + - k * b) + k * (k * a + c * b) = a * (k * k + c * c)"
    by (simp add: algebra_simps)
  then show ?thesis using assms by simp
qed

lemma rot_inverse_y:
  fixes c k a b :: real
  assumes "k * k + c * c = 1"
  shows "- k * (c * a + - k * b) + c * (k * a + c * b) = b"
proof -
  have "- k * (c * a + - k * b) + c * (k * a + c * b) = b * (k * k + c * c)"
    by (simp add: algebra_simps)
  then show ?thesis using assms by simp
qed

text \<open>
  C1. Round trip: for every pixel vector \<open>(vx, vy)\<close>, every pixel size \<open>s > 0\<close> and every
  angle \<open>a\<close> in degrees, \<open>beam_to_image_shift\<close> applied to the result of
  \<open>image_to_beam_shift\<close> gives back the two entries of the vector. Over the real numbers
  the equality is exact, so it holds within any tolerance.
\<close>

theorem beam_to_image_shift_round_trip:
  assumes "0 < s"
  shows "beam_to_image_shift (image_to_beam_shift (vx, vy) s a) s a = (Fin vx, Fin vy)"
proof -
  let ?t = "radians a"
  have sc: "sin ?t * sin ?t + cos ?t * cos ?t = 1"
    using sin_cos_squared_add [of ?t] by (simp add: power2_eq_square)
  have fwd: "image_to_beam_shift (vx, vy) s a =
      \<lparr>pt_x = cos ?t * (vx * s) + - sin ?t * (vy * s),
       pt_y = (sin ?t * (vx * s) + cos ?t * (vy * s)) * - 1\<rparr>"
    by (simp only: image_to_beam_shift_def Let_def fst_conv snd_conv)
  have bwd: "beam_to_image_shift \<lparr>pt_x = X, pt_y = Y * - 1\<rparr> s a =
      (np_div (Fin (cos ?t * X + sin ?t * Y)) s, np_div (Fin (- sin ?t * X + cos ?t * Y)) s)" for X Y
    by (simp add: beam_to_image_shift_def Let_def)
  have "beam_to_image_shift (image_to_beam_shift (vx, vy) s a) s a =
      (np_div (Fin (vx * s)) s, np_div (Fin (vy * s)) s)"
    unfolding fwd bwd
    by (simp only: rot_inverse_x [OF sc] rot_inverse_y [OF sc])
  then show ?thesis using assms by simp
qed

theorem beam_to_image_shift_round_trip_witness:
  "(0::real) < 2 \<and>
   beam_to_image_shift (image_to_beam_shift (3, - 4) 2 30) 2 30 = (Fin 3, Fin (- 4))"
  using beam_to_image_shift_round_trip [of 2 3 "- 4" 30] by simp

text \<open>
  C8. At angle 0 the forward transform \<open>image_to_beam_shift\<close> maps the pixel vector
  \<open>(x, y)\<close> to \<open>(s * x, - s * y)\<close>: it scales by the pixel size and negates the
  y-component only. This holds for every pixel size, in particular for \<open>s > 0\<close>.
\<close>

theorem image_to_beam_shift_angle_zero:
  "image_to_beam_shift (vx, vy) s 0 = \<lparr>pt_x = s * vx, pt_y = - (s * vy)\<rparr>"
  by (simp add: image_to_beam_shift_def radians_def)

section \<open>Properties of the signed angle\<close>

text \<open>
  C7. The sign convention: from \<open>(1, 0)\<close> to \<open>(0, 1)\<close> the angle is +90 degrees, from
  \<open>(1, 0)\<close> to \<open>(0, -1)\<close> it is -90 degrees. The magnitude is the arccosine of the clipped,
  normalised dot product (here 0), the sign that of the 2-D cross product (here 1 and -1).
\<close>

theorem signed_angle_sign_convention:
  "calculate_signed_angle_between_vectors (1, 0) (0, 1) = Inr (Fin 90) \<and>
   calculate_signed_angle_between_vectors (1, 0) (0, - 1) = Inr (Fin (- 90))"
  by (simp add: calculate_signed_angle_between_vectors_def np_dot_def np_cross_def
        np_linalg_norm_def)

text \<open>
  C10, as the code has it. The vectors \<open>(2^-600, 0)\<close> and \<open>(2^-600, 0)\<close> are not zero,
  but the product \<open>2^-1200\<close> of their entries is too small for \<open>float64\<close> and becomes 0:
  the dot product and both magnitudes are 0, and \<open>0 / 0\<close> is \<open>nan\<close>, which is not in the
  interval.
\<close>

theorem signed_angle_underflow_counterexample:
  "(1 / 2 ^ 600 :: real, 0 :: real) \<noteq> (0, 0) \<and>
   calculate_signed_angle_between_vectors (1 / 2 ^ 600, 0) (1 / 2 ^ 600, 0) = Inr NaN"
proof
  show "(1 / 2 ^ 600 :: real, 0 :: real) \<noteq> (0, 0)" by simp
  have "fl64 (1 / 2 ^ 600 * (1 / 2 ^ 600)) = Fin 0"
    using float64_overflow_gt
    by (simp add: fl64_def float64_underflow_def float64_overflow_def)
  then show "calculate_signed_angle_between_vectors (1 / 2 ^ 600, 0) (1 / 2 ^ 600, 0) = Inr NaN"
    by (simp add: calculate_signed_angle_between_vectors_def np_dot_def np_linalg_norm_def)
qed

text \<open>
  C10, amended. For every pair of input vectors the value returned is \<open>nan\<close> or a finite
  angle between -180 and 180 degrees. It is a finite angle in that interval whenever
  both vectors are nonzero and each of their entries is 0 or of a magnitude between
  \<open>2^-500\<close> and \<open>2^500\<close>, so that no product underflows or overflows.
\<close>

theorem signed_angle_nan_or_in_range:
  "(\<exists>r. calculate_signed_angle_between_vectors vec1 vec2 = Inr r \<and>
        (r = NaN \<or> (\<exists>d. r = Fin d \<and> - 180 \<le> d \<and> d \<le> 180))) \<and>
   (vec1 \<noteq> (0, 0) \<and> vec2 \<noteq> (0, 0) \<and>
    in_safe_range (fst vec1) \<and> in_safe_range (snd vec1) \<and>
    in_safe_range (fst vec2) \<and> in_safe_range (snd vec2) \<longrightarrow>
      (\<exists>d. calculate_signed_angle_between_vectors vec1 vec2 = Inr (Fin d) \<and>
           - 180 \<le> d \<and> d \<le> 180))"
proof -
  let ?u = "np_result (np_truediv (np_dot vec1 vec2)
              (np_result (np_mul (np_linalg_norm vec1) (np_linalg_norm vec2))))"
  let ?b = "np_negative (np_cross vec1 vec2)"
  let ?a = "np_arccos (np_clip ?u (- 1) 1)"
  let ?r = "np_result (np_degrees (if ?b then np_neg ?a else ?a))"
  have eq: "calculate_signed_angle_between_vectors vec1 vec2 = Inr ?r"
    by (simp add: calculate_signed_angle_between_vectors_def Let_def)
  have tail: "(?u = NaN \<longrightarrow> ?r = NaN) \<and>
      (?u \<noteq> NaN \<longrightarrow> (\<exists>d. ?r = Fin d \<and> - 180 \<le> d \<and> d \<le> 180))"
    by (rule angle_of_cosine)
  have first: "?r = NaN \<or> (\<exists>d. ?r = Fin d \<and> - 180 \<le> d \<and> d \<le> 180)"
    using tail by blast
  have second: "\<exists>d. ?r = Fin d \<and> - 180 \<le> d \<and> d \<le> 180"
    if nz: "vec1 \<noteq> (0, 0)" "vec2 \<noteq> (0, 0)"
      and safe: "in_safe_range (fst vec1)" "in_safe_range (snd vec1)"
        "in_safe_range (fst vec2)" "in_safe_range (snd vec2)"
  proof -
    obtain a where a: "np_dot vec1 vec2 = Fin a"
      using np_dot_safe [OF safe] by blast
    obtain m1 where m1: "np_linalg_norm vec1 = Fin m1" "1 / 2 ^ 500 \<le> m1" "m1 \<le> 2 ^ 501"
      using np_linalg_norm_safe [OF safe(1,2) nz(1)] by blast
    obtain m2 where m2: "np_linalg_norm vec2 = Fin m2" "1 / 2 ^ 500 \<le> m2" "m2 \<le> 2 ^ 501"
      using np_linalg_norm_safe [OF safe(3,4) nz(2)] by blast
    have p: "np_result (np_mul (Fin m1) (Fin m2)) = Fin (m1 * m2)" "m1 * m2 \<noteq> 0"
      using magnitude_product_safe [OF m1(2,3) m2(2,3)] by blast+
    have "?u = fl64 (a / (m1 * m2))"
      unfolding a m1(1) m2(1) p(1) using p(2) by simp
    then have "?u \<noteq> NaN" by simp
    with tail show ?thesis by blast
  qed
  show ?thesis
    unfolding eq using first second by blast
qed

theorem signed_angle_nan_or_in_range_witness:
  "(3, 4) \<noteq> (0, 0 :: real) \<and> (- 4, 3) \<noteq> (0, 0 :: real) \<and>
   in_safe_range 3 \<and> in_safe_range 4 \<and> in_safe_range (- 4) \<and>
   (\<exists>d. calculate_signed_angle_between_vectors (3, 4) (- 4, 3) = Inr (Fin d) \<and>
        - 180 \<le> d \<and> d \<le> 180)"
proof -
  have s: "in_safe_range 3" "in_safe_range 4" "in_safe_range (- 4)"
    by (simp_all add: in_safe_range_def)
  show ?thesis
    using signed_angle_nan_or_in_range [of "(3, 4)" "(- 4, 3)"] s by simp
qed

text \<open>
  C6, as the code has it. With a zero vector the dot product and the product of the
  magnitudes are both 0; numpy's \<open>0 / 0\<close> is \<open>nan\<close>, which \<open>np.clip\<close>, \<open>np.arccos\<close> and
  \<open>np.degrees\<close> pass on, and the cross product 0 is not negative. Nothing is raised: the
  function returns \<open>nan\<close>.
\<close>

theorem signed_angle_zero_vector_counterexample:
  "calculate_signed_angle_between_vectors (0, 0) (1, 0) = Inr NaN"
  by (simp add: calculate_signed_angle_between_vectors_def np_dot_def np_linalg_norm_def)

text \<open>
  C6, amended. When either input vector is the zero vector the function raises no error
  and returns \<open>nan\<close>: neither 0 nor any other finite angle.
\<close>

theorem signed_angle_zero_vector_nan:
  "vec1 = (0, 0) \<or> vec2 = (0, 0) \<Longrightarrow>
   calculate_signed_angle_between_vectors vec1 vec2 = Inr NaN"
proof (erule disjE)
  assume "vec1 = (0, 0)"
  then show ?thesis
    using zero_over_zero [OF zero_times_magnitude(1) [of "np_linalg_norm vec2"]]
    by (simp add: calculate_signed_angle_between_vectors_def)
next
  assume "vec2 = (0, 0)"
  then show ?thesis
    using zero_over_zero [OF zero_times_magnitude(2) [of "np_linalg_norm vec1"]]
    by (simp add: calculate_signed_angle_between_vectors_def)
qed

theorem signed_angle_zero_vector_nan_witness:
  "((2, 3) = (0, 0 :: real) \<or> (0, 0) = (0, 0 :: real)) \<and>
   calculate_signed_angle_between_vectors (2, 3) (0, 0) = Inr NaN"
  using signed_angle_zero_vector_nan [of "(2, 3)" "(0, 0)"] by simp

section \<open>Properties of binning\<close>

text \<open>
  C3, as the code has it. The shape \<open>(256, bin_factor, 256, bin_factor)\<close> is fixed in the
  code, so a square frame of side \<open>N\<close> is accepted only for \<open>N = 256 * bin_factor\<close>. A
  2-by-2 frame binned by 2 (2 divides 2) is not turned into a 1-by-1 frame: \<open>reshape\<close>
  raises \<open>ValueError\<close>.
\<close>

theorem bin_image_small_frame_counterexample:
  "bin_image (finite_image [[1, 1], [1, 1]]) 2 = Inl ValueError"
  by (simp add: bin_image_def finite_image_def)

text \<open>
  C3, amended. Let \<open>f > 0\<close> and let the frame be square, of side \<open>N\<close>, with finite
  samples. If \<open>N = 256 * f\<close>, \<open>bin_image\<close> returns a frame of side \<open>256 = N / f\<close> in which
  the sample \<open>[a, c]\<close> is the mean of the \<open>f\<close>-by-\<open>f\<close> block of input samples with the rows
  \<open>a * f, ..., a * f + f - 1\<close> and the columns \<open>c * f, ..., c * f + f - 1\<close>, and a uniform
  frame of value \<open>u\<close> is binned to a uniform frame of value \<open>u\<close>. For every other side \<open>N\<close>
  the call raises \<open>ValueError\<close>.
\<close>

theorem bin_image_block_mean:
  assumes "0 < f" and "length img = N" and "\<forall>row\<in>set img. length row = N"
  shows "(N = 256 * f \<longrightarrow>
           (\<exists>out. bin_image (finite_image img) (int f) = Inr out \<and>
              length out = 256 \<and> (\<forall>row\<in>set out. length row = 256) \<and>
              (\<forall>a<256. \<forall>c<256.
                 out ! a ! c =
                   Fin ((\<Sum>b<f. \<Sum>d<f. img ! (a * f + b) ! (c * f + d)) / real (f * f))) \<and>
              ((\<forall>row\<in>set img. \<forall>v\<in>set row. v = u) \<longrightarrow>
                 (\<forall>row\<in>set out. \<forall>v\<in>set row. v = Fin u)))) \<and>
         (N \<noteq> 256 * f \<longrightarrow> bin_image (finite_image img) (int f) = Inl ValueError)"
proof (intro conjI impI)
  assume "N \<noteq> 256 * f"
  with assms(2,3) show "bin_image (finite_image img) (int f) = Inl ValueError"
    by (rule bin_image_wrong_size)
next
  assume N: "N = 256 * f"
  let ?out = "map (\<lambda>a. map (\<lambda>c. Fin ((\<Sum>b<f. \<Sum>d<f. img ! (a * f + b) ! (c * f + d)) / real (f * f)))
          [0..<256]) [0..<256]"
  have rows: "length img = 256 * f" and cols: "\<forall>row\<in>set img. length row = 256 * f"
    using assms(2,3) N by simp_all
  have eq: "bin_image (finite_image img) (int f) = Inr ?out"
    using assms(1) rows cols by (rule bin_image_square)
  have uni: "\<forall>row\<in>set ?out. \<forall>v\<in>set row. v = Fin u"
    if u: "\<forall>row\<in>set img. \<forall>v\<in>set row. v = u"
  proof -
    have "(\<Sum>b<f. \<Sum>d<f. img ! (a * f + b) ! (c * f + d)) / real (f * f) = u"
      if "a < 256" "c < 256" for a c
    proof -
      have "img ! (a * f + b) ! (c * f + d) = u" if "b < f" "d < f" for b d
      proof -
        have r: "a * f + b < length img"
          using block_bound [OF \<open>a < 256\<close> \<open>b < f\<close>] rows by simp
        then have row: "img ! (a * f + b) \<in> set img" by simp
        then have "c * f + d < length (img ! (a * f + b))"
          using block_bound [OF \<open>c < 256\<close> \<open>d < f\<close>] cols by simp
        then have "img ! (a * f + b) ! (c * f + d) \<in> set (img ! (a * f + b))" by simp
        with u row show ?thesis by blast
      qed
      then have "(\<Sum>b<f. \<Sum>d<f. img ! (a * f + b) ! (c * f + d)) = (\<Sum>b<f. \<Sum>d<f. u)"
        by (intro sum.cong refl) simp_all
      then show ?thesis using assms(1) by simp
    qed
    then show ?thesis by auto
  qed
  show "\<exists>out. bin_image (finite_image img) (int f) = Inr out \<and>
     length out = 256 \<and> (\<forall>row\<in>set out. length row = 256) \<and>
     (\<forall>a<256. \<forall>c<256.
        out ! a ! c = Fin ((\<Sum>b<f. \<Sum>d<f. img ! (a * f + b) ! (c * f + d)) / real (f * f))) \<and>
     ((\<forall>row\<in>set img. \<forall>v\<in>set row. v = u) \<longrightarrow> (\<forall>row\<in>set out. \<forall>v\<in>set row. v = Fin u))"
    using eq uni by (intro exI [of _ ?out]) simp
qed

theorem bin_image_block_mean_witness:
  "length (replicate 512 (map real [0..<512])) = 512 \<and>
   (\<exists>out. bin_image (finite_image (replicate 512 (map real [0..<512]))) 2 = Inr out \<and>
      length out = 256 \<and> out ! 0 ! 3 = Fin (13 / 2)) \<and>
   bin_image (finite_image [[1, 2], [3, 4]]) 2 = Inl ValueError"
proof -
  let ?img = "replicate 512 (map real [0..<512])"
  have h: "\<forall>row\<in>set ?img. length row = 512" by simp
  have t: "((512::nat) = 256 * 2 \<longrightarrow>
           (\<exists>out. bin_image (finite_image ?img) (int 2) = Inr out \<and>
              length out = 256 \<and> (\<forall>row\<in>set out. length row = 256) \<and>
              (\<forall>a<256. \<forall>c<256.
                 out ! a ! c =
                   Fin ((\<Sum>b<2. \<Sum>d<2. ?img ! (a * 2 + b) ! (c * 2 + d)) / real (2 * 2))) \<and>
              ((\<forall>row\<in>set ?img. \<forall>v\<in>set row. v = 0) \<longrightarrow>
                 (\<forall>row\<in>set out. \<forall>v\<in>set row. v = Fin 0)))) \<and>
         ((512::nat) \<noteq> 256 * 2 \<longrightarrow> bin_image (finite_image ?img) (int 2) = Inl ValueError)"
    by (rule bin_image_block_mean [of 2 ?img 512 0, OF _ _ h]) simp_all
  then obtain out where o:
      "bin_image (finite_image ?img) (int 2) = Inr out" "length out = 256"
      "\<forall>a<256. \<forall>c<256. out ! a ! c =
         Fin ((\<Sum>b<2. \<Sum>d<2. ?img ! (a * 2 + b) ! (c * 2 + d)) / real (2 * 2))"
    by auto
  have two: "{..<2::nat} = {0, 1}" by auto
  from o(3) have "out ! 0 ! 3 = Fin ((\<Sum>b<2. \<Sum>d<2. ?img ! (0 * 2 + b) ! (3 * 2 + d)) / real (2 * 2))"
    by simp
  then have cell: "out ! 0 ! 3 = Fin (13 / 2)"
    by (simp add: two)
  have e: "bin_image (finite_image [[1, 2], [3, 4]]) (int 2) = Inl ValueError"
    using bin_image_block_mean [of 2 "[[1, 2], [3, 4]]" 2 0] by simp
  show ?thesis using o(1,2) cell e by simp
qed

section \<open>Properties of the valid-mode peak index\<close>

text \<open>
  C9. For a search image of \<open>H\<close> by \<open>W\<close> samples and a template of \<open>h\<close> by \<open>w\<close> samples,
  not empty, with \<open>h \<le> H\<close> and \<open>w \<le> W\<close> (whatever the samples are, \<open>nan\<close> included),
  \<open>cross_correlate\<close> returns a peak index \<open>(r, c)\<close> with \<open>0 \<le> r \<le> H - h\<close> and
  \<open>0 \<le> c \<le> W - w\<close>; so the acceptance test of the tile loop, on absolute values, is
  the test \<open>r \<le> 5\<close> and \<open>c \<le> 5\<close>.
\<close>

theorem cross_correlate_peak_bounds:
  assumes img: "length img = H" "\<forall>row\<in>set img. length row = W"
    and tmpl: "length template = h" "\<forall>row\<in>set template. length row = w"
    and sizes: "0 < h" "h \<le> H" "0 < w" "w \<le> W"
  shows "\<exists>r c. cross_correlate img template = Inr (r, c) \<and>
           0 \<le> r \<and> r \<le> int H - int h \<and> 0 \<le> c \<and> c \<le> int W - int w \<and>
           (within_tolerance (r, c) \<longleftrightarrow> r \<le> 5 \<and> c \<le> 5)"
proof -
  have shape: "nrows img = H" "ncols img = W" "nrows template = h" "ncols template = w"
    using assms by (auto simp: nrows_def intro: ncols_rect)
  let ?corr = "corr_valid img template"
  let ?R = "H - h + 1" and ?C = "W - w + 1"
  have corr: "correlate2d img template Valid = Inr ?corr"
    using sizes by (simp add: correlate2d_def shape)
  have rows: "length ?corr = ?R" and cols: "\<forall>row\<in>set ?corr. length row = ?C"
    using corr_valid_shape [of img template] by (simp_all add: shape)
  have nc: "ncols ?corr = ?C"
    using rows cols by (intro ncols_rect [of _ ?R]) simp_all
  have len: "length (concat ?corr) = ?R * ?C"
    using length_concat_rect [OF cols] rows by simp
  have "0 < length (concat ?corr)" unfolding len by simp
  then have "concat ?corr \<noteq> []" by simp
  then obtain k where k: "np_argmax (concat ?corr) = Inr k" "k < ?R * ?C"
    using np_argmax_bound len by metis
  have eq: "cross_correlate img template = Inr (int (k div ?C), int (k mod ?C))"
    using corr k(1) rows nc by (simp add: cross_correlate_def unravel_index_def nrows_def)
  have "k div ?C < ?R"
    using k(2) by (simp add: less_mult_imp_div_less)
  then have "k div ?C \<le> H - h" by simp
  then have r: "int (k div ?C) \<le> int H - int h"
    using sizes by (simp add: of_nat_diff [symmetric] del: of_nat_diff)
  have "k mod ?C < ?C" by (rule mod_less_divisor) simp
  then have "k mod ?C \<le> W - w" by (simp only: Suc_eq_plus1 [symmetric] less_Suc_eq_le)
  then have c: "int (k mod ?C) \<le> int W - int w"
    using sizes by (simp add: of_nat_diff [symmetric] del: of_nat_diff)
  show ?thesis
    using eq r c by (simp add: within_tolerance_def SHIFT_TOLERANCE_PIXELS_def)
qed

theorem cross_correlate_peak_bounds_witness:
  "(0::nat) < 1 \<and> (1::nat) \<le> 2 \<and>
   (\<exists>r c. cross_correlate (finite_image [[1, 2], [3, 9]]) (finite_image [[1]]) = Inr (r, c) \<and>
      0 \<le> r \<and> r \<le> 1 \<and> 0 \<le> c \<and> c \<le> 1 \<and>
      (within_tolerance (r, c) \<longleftrightarrow> r \<le> 5 \<and> c \<le> 5))"
  using cross_correlate_peak_bounds
    [of "finite_image [[1, 2], [3, 9]]" 2 2 "finite_image [[1]]" 1 1]
  by (simp add: finite_image_def)

section \<open>Properties of the displacement estimator\<close>




section \<open>Properties of the correction sub-loop\<close>

lemma correction_pass_retry:
  assumes "2 \<le> length (images_list st)" and "adornedImage_list st \<noteq> []"
    and "seam_peak_index (images_list st ! (length (images_list st) - 2)) (last (images_list st))
           = Inr p"
    and "\<not> within_tolerance p"
  shows "\<exists>st'. correction_pass microscope desired st = Retry st' \<and> retried microscope st st'"
  using assms
  by (simp add: correction_pass_def retried_def Let_def emit_def acquire_stem_image_def)


lemma correction_loop_from:
  assumes "a + k = 9"
    and "2 \<le> length (images_list st)" and "adornedImage_list st \<noteq> []"
    and "images_list st ! (length (images_list st) - 2) = prev"
    and "\<exists>p. seam_peak_index prev (last (images_list st)) = Inr p \<and> \<not> within_tolerance p"
    and "\<And>n. acquired st \<le> n \<Longrightarrow>
           \<exists>p. seam_peak_index prev (astype_float64 (img_data (stem_images microscope n))) = Inr p \<and>
               \<not> within_tolerance p"
  shows "\<exists>st'. correction_loop microscope desired a st = Some (Done st') \<and>
      acquired st' = acquired st + Suc k \<and>
      count_list (events st') AcquireStemImage = count_list (events st) AcquireStemImage + Suc k \<and>
      count_list (events st') (Print CorrectingShift) =
        count_list (events st) (Print CorrectingShift) + Suc k \<and>
      last (events st') = Print NoSolutionFound \<and>
      last (images_list st') = astype_float64 (img_data (stem_images microscope (acquired st + k))) \<and>
      last (adornedImage_list st') = stem_images microscope (acquired st + k)"
  using assms
proof (induction k arbitrary: a st)
  case 0
  from "0.prems"(5) obtain p where p:
      "seam_peak_index prev (last (images_list st)) = Inr p" "\<not> within_tolerance p"
    by blast
  obtain st1 where st1: "correction_pass microscope desired st = Retry st1"
      "retried microscope st st1"
    using correction_pass_retry [of st p microscope desired] "0.prems"(2,3,4) p by auto
  have "correction_loop microscope desired a st = Some (Done (emit [Print NoSolutionFound] st1))"
    using st1(1) "0.prems"(1) by (subst correction_loop.simps) simp
  moreover have "images_list st \<noteq> []" "adornedImage_list st \<noteq> []"
    using "0.prems"(2,3) by auto
  ultimately show ?case
    using st1(2) by (simp add: retried_def emit_def last_list_update)
next
  case (Suc k)
  from Suc.prems(5) obtain p where p:
      "seam_peak_index prev (last (images_list st)) = Inr p" "\<not> within_tolerance p"
    by blast
  obtain st1 where st1: "correction_pass microscope desired st = Retry st1"
      "retried microscope st st1"
    using correction_pass_retry [of st p microscope desired] Suc.prems(2,3,4) p by auto
  have ne: "images_list st \<noteq> []" using Suc.prems(2) by auto
  have unfold: "correction_loop microscope desired a st =
      correction_loop microscope desired (Suc a) st1"
    using st1(1) Suc.prems(1) by (subst correction_loop.simps) simp
  have len1: "2 \<le> length (images_list st1)" and ad1: "adornedImage_list st1 \<noteq> []"
    using st1(2) Suc.prems(2,3) by (simp_all add: retried_def)
  have prev1: "images_list st1 ! (length (images_list st1) - 2) = prev"
    using st1(2) Suc.prems(2,4) by (simp add: retried_def)
  have last1: "last (images_list st1) =
      astype_float64 (img_data (stem_images microscope (acquired st)))"
    using st1(2) ne by (simp add: retried_def last_list_update)
  have cur1: "\<exists>p. seam_peak_index prev (last (images_list st1)) = Inr p \<and> \<not> within_tolerance p"
    unfolding last1 by (rule Suc.prems(6)) simp
  have fut1: "\<exists>p. seam_peak_index prev (astype_float64 (img_data (stem_images microscope n))) = Inr p \<and>
               \<not> within_tolerance p" if "acquired st1 \<le> n" for n
    using that st1(2) by (intro Suc.prems(6)) (simp add: retried_def)
  obtain st' where st': "correction_loop microscope desired (Suc a) st1 = Some (Done st')"
      "acquired st' = acquired st1 + Suc k"
      "count_list (events st') AcquireStemImage = count_list (events st1) AcquireStemImage + Suc k"
      "count_list (events st') (Print CorrectingShift) =
        count_list (events st1) (Print CorrectingShift) + Suc k"
      "last (events st') = Print NoSolutionFound"
      "last (images_list st') = astype_float64 (img_data (stem_images microscope (acquired st1 + k)))"
      "last (adornedImage_list st') = stem_images microscope (acquired st1 + k)"
    using Suc.IH [of "Suc a" st1, OF _ len1 ad1 prev1 cur1 fut1] Suc.prems(1) by auto
  show ?case
    using unfold st' st1(2) by (simp add: retried_def)
qed

text \<open>
  C5. Let the correction sub-loop start with at least two images, and let the peak index
  of the seam be outside the tolerance for the current image and for every image the
  microscope returns from then on. Then the sub-loop ends normally after exactly 10
  passes: 10 images were acquired and 10 corrections made, the last message is
  "No solution found", and the last entry of both lists is the image of the tenth
  acquisition.
\<close>

theorem correction_loop_retry_budget:
  assumes "2 \<le> length (images_list st)" and "adornedImage_list st \<noteq> []"
    and "\<exists>p. seam_peak_index (images_list st ! (length (images_list st) - 2))
                (last (images_list st)) = Inr p \<and> \<not> within_tolerance p"
    and "\<And>n. acquired st \<le> n \<Longrightarrow>
           \<exists>p. seam_peak_index (images_list st ! (length (images_list st) - 2))
                 (astype_float64 (img_data (stem_images microscope n))) = Inr p \<and>
               \<not> within_tolerance p"
  shows "\<exists>st'. correction_loop microscope desired 0 st = Some (Done st') \<and>
      acquired st' = acquired st + 10 \<and>
      count_list (events st') AcquireStemImage = count_list (events st) AcquireStemImage + 10 \<and>
      count_list (events st') (Print CorrectingShift) =
        count_list (events st) (Print CorrectingShift) + 10 \<and>
      last (events st') = Print NoSolutionFound \<and>
      last (images_list st') = astype_float64 (img_data (stem_images microscope (acquired st + 9))) \<and>
      last (adornedImage_list st') = stem_images microscope (acquired st + 9)"
  using correction_loop_from [of 0 9 st _ microscope desired, OF _ assms(1,2) refl assms(3,4)]
  by simp

lemma correction_pass_events:
  "correction_pass microscope desired st = Stop r \<Longrightarrow>
     \<exists>es. events (state_of r) = events st @ es"
  "correction_pass microscope desired st = Retry st' \<Longrightarrow>
     \<exists>es. events st' = events st @ es"
  by (auto simp: correction_pass_def Let_def emit_def acquire_stem_image_def
        split: if_splits sum.splits prod.splits)

lemma correction_loop_total:
  assumes "a + k = 9"
  shows "\<exists>r es. correction_loop microscope desired a st = Some r \<and>
           events (state_of r) = events st @ es"
  using assms
proof (induction k arbitrary: a st)
  case 0
  show ?case
  proof (cases "correction_pass microscope desired st")
    case (Stop r)
    then have "correction_loop microscope desired a st = Some r"
      by (subst correction_loop.simps) simp
    with correction_pass_events(1) [OF Stop] show ?thesis by auto
  next
    case (Retry st1)
    then have "correction_loop microscope desired a st =
        Some (Done (emit [Print NoSolutionFound] st1))"
      using 0 by (subst correction_loop.simps) simp
    with correction_pass_events(2) [OF Retry] show ?thesis by (auto simp: emit_def)
  qed
next
  case (Suc k)
  show ?case
  proof (cases "correction_pass microscope desired st")
    case (Stop r)
    then have "correction_loop microscope desired a st = Some r"
      by (subst correction_loop.simps) simp
    with correction_pass_events(1) [OF Stop] show ?thesis by auto
  next
    case (Retry st1)
    then have "correction_loop microscope desired a st =
        correction_loop microscope desired (Suc a) st1"
      using Suc.prems by (subst correction_loop.simps) simp
    moreover obtain r es where "correction_loop microscope desired (Suc a) st1 = Some r"
        "events (state_of r) = events st1 @ es"
      using Suc.IH [of "Suc a" st1] Suc.prems by auto
    moreover obtain es1 where "events st1 = events st @ es1"
      using correction_pass_events(2) [OF Retry] by auto
    ultimately show ?thesis by auto
  qed
qed

theorem correction_loop_retry_budget_witness:
  "2 \<le> length (images_list ramp_state) \<and>
   (\<exists>st'. correction_loop ramp_microscope \<lparr>sp_x = 0, sp_y = 0\<rparr> 0 ramp_state = Some (Done st') \<and>
      acquired st' = 12 \<and>
      count_list (events st') AcquireStemImage = 10 \<and>
      last (events st') = Print NoSolutionFound \<and>
      last (adornedImage_list st') = ramp_image)"
proof -
  have peak: "\<exists>p. seam_peak_index (astype_float64 ramp_counts) (astype_float64 ramp_counts) = Inr p \<and>
      \<not> within_tolerance p"
    by (simp add: ramp_seam_peak_index within_tolerance_def SHIFT_TOLERANCE_PIXELS_def)
  have len: "2 \<le> length (images_list ramp_state)"
    and ad: "adornedImage_list ramp_state \<noteq> []"
    by (simp_all add: ramp_state_def)
  have first: "\<exists>p. seam_peak_index
        (images_list ramp_state ! (length (images_list ramp_state) - 2))
        (last (images_list ramp_state)) = Inr p \<and> \<not> within_tolerance p"
    using peak by (simp add: ramp_state_def)
  have later: "\<exists>p. seam_peak_index
        (images_list ramp_state ! (length (images_list ramp_state) - 2))
        (astype_float64 (img_data (stem_images ramp_microscope n))) = Inr p \<and>
        \<not> within_tolerance p" for n
    using peak by (simp add: ramp_state_def ramp_microscope_def ramp_image_def)
  show ?thesis
    using correction_loop_retry_budget
      [of ramp_state ramp_microscope "\<lparr>sp_x = 0, sp_y = 0\<rparr>", OF len ad first later]
    by (auto simp add: ramp_state_def ramp_microscope_def)
qed

section \<open>The order of acquisitions and corrections in the tiling loop\<close>

text \<open>
  C4, as the code has it, for one row of three columns and any microscope. The three
  tiles are acquired one after the other: after the second tile is acquired and the beam
  blanked, the next command is the move to the third tile. The correction sub-loop is
  entered once, after the third tile, with the message "image 02"; the seam of the
  second tile is never corrected.
\<close>

theorem tiling_loop_three_columns:
  "\<exists>r es. tiling_loop microscope 1 3 = Some r \<and>
     events (state_of r) =
       [Print (DesiredAbsStagePos (initial_stage_position microscope)),
        AbsoluteMove (initial_stage_position microscope),
        AcquireStemImage, Blank,
        Print (DesiredAbsStagePos2 ((stage_position (stem_images microscope 0))
          \<lparr>sp_x := sp_x (stage_position (stem_images microscope 0))
                     + DESIRED_RELATIVE_SHIFT microscope\<rparr>)),
        AbsoluteMove ((stage_position (stem_images microscope 0))
          \<lparr>sp_x := sp_x (stage_position (stem_images microscope 0))
                     + DESIRED_RELATIVE_SHIFT microscope\<rparr>),
        AcquireStemImage, Blank,
        Print (DesiredAbsStagePos2 ((stage_position (stem_images microscope 1))
          \<lparr>sp_x := sp_x (stage_position (stem_images microscope 1))
                     + DESIRED_RELATIVE_SHIFT microscope\<rparr>)),
        AbsoluteMove ((stage_position (stem_images microscope 1))
          \<lparr>sp_x := sp_x (stage_position (stem_images microscope 1))
                     + DESIRED_RELATIVE_SHIFT microscope\<rparr>),
        AcquireStemImage, Blank,
        Print (ImageTag 0 2)] @ es"
proof -
  let ?p0 = "initial_stage_position microscope"
  let ?p1 = "(stage_position (stem_images microscope 0))
          \<lparr>sp_x := sp_x (stage_position (stem_images microscope 0))
                     + DESIRED_RELATIVE_SHIFT microscope\<rparr>"
  let ?p2 = "(stage_position (stem_images microscope 1))
          \<lparr>sp_x := sp_x (stage_position (stem_images microscope 1))
                     + DESIRED_RELATIVE_SHIFT microscope\<rparr>"
  let ?st0 = "\<lparr>adornedImage_list = [], images_list = [], acquired = 0, events = []\<rparr>"
  let ?ev = "[Print (DesiredAbsStagePos ?p0), AbsoluteMove ?p0, AcquireStemImage, Blank,
        Print (DesiredAbsStagePos2 ?p1), AbsoluteMove ?p1, AcquireStemImage, Blank,
        Print (DesiredAbsStagePos2 ?p2), AbsoluteMove ?p2, AcquireStemImage, Blank]"
  have cols: "[0..<3] = [0, 1, 2::nat]" by (simp add: upt_rec)
  obtain st3 where col: "column_loop microscope 0 [0..<3] (?p0, ?st0) = Done (?p2, st3)"
      and ev3: "events st3 = ?ev"
    unfolding cols
    by (simp add: acquire_tile_def emit_def acquire_stem_image_def Let_def)
  obtain r es where loop: "correction_loop microscope ?p2 0 (emit [Print (ImageTag 0 2)] st3) = Some r"
      "events (state_of r) = events (emit [Print (ImageTag 0 2)] st3) @ es"
    using correction_loop_total [of 0 9 microscope ?p2 "emit [Print (ImageTag 0 2)] st3"] by auto
  have rows: "[0..<1] = [0::nat]" by simp
  have "tiling_loop microscope 1 3 = Some r"
  proof (cases r)
    case (Raised e st)
    then show ?thesis
      using col loop(1) unfolding tiling_loop_def rows by (simp add: Let_def)
  next
    case (Done st)
    then show ?thesis
      using col loop(1) unfolding tiling_loop_def rows by (simp add: Let_def)
  qed
  moreover have "events (state_of r) = (?ev @ [Print (ImageTag 0 2)]) @ es"
    using loop(2) ev3 by (simp add: emit_def)
  ultimately show ?thesis by auto
qed

end
